theory Spec2Isabelle
  imports Main "HOL-Library.AList" "HOL-Library.Char_ord" "HOL-Library.List_Lexorder"
begin

section \<open>Notes (\<open>zettel.py\<close>)\<close>

text \<open>
  The attributes that \<open>Zettel.__init__\<close> assigns. Python strings are lists of characters.
\<close>

record zettel_base =
  path :: string
  zid :: string
  links :: "string list"
  title :: string
  tags :: "string set"

text \<open>
  A \<open>Zettel\<close> object as Python holds it: an attribute exists once it has been assigned.
  \<open>backlinks_attr\<close> and \<open>depth_attr\<close> are \<open>None\<close> while the object has no attribute \<open>backlinks\<close>
  or \<open>depth\<close>; \<open>zettelkasten.py\<close> assigns both and \<open>Zettel.__init__\<close> assigns neither, so
  reading one of them from a new object raises \<open>AttributeError\<close>.
\<close>

record zettel_obj = zettel_base +
  backlinks_attr :: "string set option"
  depth_attr :: "int option option"

text \<open>
  A note both of whose attributes exist.

  Modelled from the spec: the test \<open>mother.depth is not None\<close> of \<open>_update_depths\<close> expects
  a note to carry a depth that is \<open>None\<close> until it is computed, and the data model of the
  specification gives a new note the empty set of backlinks and no depth. The collection
  of \<open>zettel\<close> records below is the collection of such notes; the collection of objects as
  the constructor builds them follows it.
\<close>

record zettel = zettel_base +
  backlinks :: "string set"
  depth :: "int option"

section \<open>The collection (\<open>zettelkasten.py\<close>)\<close>

text \<open>
  The collection of notes whose attributes exist. \<open>zid2zettel\<close> is a Python dict: an
  association list in insertion order. \<open>errors\<close> collects the messages passed to
  \<open>logger.error\<close>.
\<close>

record zettelkasten =
  zid2zettel :: "(string \<times> zettel) list"
  finalized :: bool
  errors :: "string list"

definition zettels :: "zettelkasten \<Rightarrow> zettel list" where
  "zettels zk = map snd (zid2zettel zk)"


definition logger_error :: "string \<Rightarrow> zettelkasten \<Rightarrow> zettelkasten" where
  "logger_error msg zk = zk\<lparr>errors := errors zk @ [msg]\<rparr>"

definition could_not_find :: "string \<Rightarrow> string" where
  "could_not_find k = ''Could not find zettel with ZID '' @ k"

text \<open>\<open>add_zettels\<close>: \<open>self.zid2zettel[zettel.zid] = zettel\<close> for each note, in order.\<close>

definition add_zettels :: "zettel list \<Rightarrow> zettelkasten \<Rightarrow> zettelkasten" where
  "add_zettels zs zk =
     fold (\<lambda>z k. k\<lparr>zid2zettel := AList.update (zid z) z (zid2zettel k)\<rparr>) zs
       (zk\<lparr>finalized := False\<rparr>)"

definition Zettelkasten_init :: "zettel list \<Rightarrow> zettelkasten" where
  "Zettelkasten_init zs =
     (add_zettels zs \<lparr>zid2zettel = [], finalized = False, errors = []\<rparr>)\<lparr>finalized := False\<rparr>"

subsection \<open>\<open>_update_backlinks\<close>\<close>

definition reset_backlinks :: "zettelkasten \<Rightarrow> zettelkasten" where
  "reset_backlinks zk =
     zk\<lparr>zid2zettel := map (\<lambda>(k, z). (k, z\<lparr>backlinks := {}\<rparr>)) (zid2zettel zk)\<rparr>"

text \<open>
  The body of the inner loop: \<open>self.zid2zettel[linked_zid].backlinks.add(zettel.zid)\<close>,
  with the \<open>KeyError\<close> caught and logged.
\<close>

definition add_backlink :: "string \<Rightarrow> string \<Rightarrow> zettelkasten \<Rightarrow> zettelkasten" where
  "add_backlink src linked_zid zk =
     (case map_of (zid2zettel zk) linked_zid of
        Some t \<Rightarrow>
          zk\<lparr>zid2zettel :=
               AList.map_entry linked_zid (\<lambda>t. t\<lparr>backlinks := insert src (backlinks t)\<rparr>)
                 (zid2zettel zk)\<rparr>
      | None \<Rightarrow> logger_error (could_not_find linked_zid) zk)"

definition add_backlinks :: "zettel list \<Rightarrow> zettelkasten \<Rightarrow> zettelkasten" where
  "add_backlinks zs zk =
     fold (\<lambda>zettel k. fold (add_backlink (zid zettel)) (links zettel) k) zs zk"

definition update_backlinks :: "zettelkasten \<Rightarrow> zettelkasten" where
  "update_backlinks zk = (let zk1 = reset_backlinks zk in add_backlinks (zettels zk1) zk1)"

subsection \<open>\<open>_update_depths\<close>\<close>

definition root_zid :: string where
  "root_zid = ''00000000000000''"

definition set_depth :: "string \<Rightarrow> int \<Rightarrow> zettelkasten \<Rightarrow> zettelkasten" where
  "set_depth k d zk =
     zk\<lparr>zid2zettel := AList.map_entry k (\<lambda>t. t\<lparr>depth := Some d\<rparr>) (zid2zettel zk)\<rparr>"

text \<open>
  The statement after the recursive call:
  \<open>self.zid2zettel[daughter].depth = mother_depth + 1\<close>, with the \<open>KeyError\<close> logged.
\<close>

definition assign_daughter :: "string \<Rightarrow> int \<Rightarrow> zettelkasten \<Rightarrow> zettelkasten" where
  "assign_daughter daughter d zk =
     (case map_of (zid2zettel zk) daughter of
        Some t \<Rightarrow> set_depth daughter d zk
      | None \<Rightarrow> logger_error (could_not_find daughter) zk)"

text \<open>
  \<open>_update_depths\<close> calls itself inside its loop over \<open>mother.links\<close>. The first argument
  bounds the nesting of calls, as the interpreter's recursion limit does: \<open>None\<close> is a
  call chain deeper than the bound. \<open>update_depths_loop\<close> is the \<open>for daughter\<close> loop.
\<close>

fun update_depths :: "nat \<Rightarrow> zettelkasten \<Rightarrow> string \<Rightarrow> int \<Rightarrow> zettelkasten option"
  and update_depths_loop :: "nat \<Rightarrow> zettelkasten \<Rightarrow> string list \<Rightarrow> int \<Rightarrow> zettelkasten option"
where
  "update_depths 0 zk mother mother_depth = None"
| "update_depths (Suc n) zk mother mother_depth =
     (case map_of (zid2zettel zk) mother of
        None \<Rightarrow> Some (logger_error (could_not_find mother) zk)
      | Some m \<Rightarrow>
          (case depth m of
             Some d \<Rightarrow> Some zk
           | None \<Rightarrow>
               update_depths_loop n (set_depth mother mother_depth zk) (links m) mother_depth))"
| "update_depths_loop n zk [] mother_depth = Some zk"
| "update_depths_loop n zk (daughter # ds) mother_depth =
     (case update_depths n zk daughter (mother_depth + 1) of
        None \<Rightarrow> None
      | Some zk' \<Rightarrow>
          update_depths_loop n (assign_daughter daughter (mother_depth + 1) zk') ds mother_depth)"

subsection \<open>\<open>finalize\<close>\<close>

definition finalize :: "nat \<Rightarrow> zettelkasten \<Rightarrow> zettelkasten option" where
  "finalize n zk =
     (case update_depths n (update_backlinks zk) root_zid 0 of
        None \<Rightarrow> None
      | Some zk' \<Rightarrow> Some (zk'\<lparr>finalized := True\<rparr>))"

section \<open>Notions used to state the properties of the collection\<close>

text \<open>
  \<open>lookup\<close> is \<open>__getitem__\<close>, with \<open>None\<close> for the \<open>KeyError\<close>. A collection is well formed
  when its keys are distinct, as the keys of a dict are, and every note is stored under
  its own \<open>zid\<close>, as \<open>add_zettels\<close> stores it.
\<close>

definition lookup :: "zettelkasten \<Rightarrow> string \<Rightarrow> zettel option" where
  "lookup zk k = map_of (zid2zettel zk) k"

definition wf_zk :: "zettelkasten \<Rightarrow> bool" where
  "wf_zk zk \<longleftrightarrow> distinct (map fst (zid2zettel zk)) \<and> list_all (\<lambda>(k, z). zid z = k) (zid2zettel zk)"

definition linking_zids :: "(string \<times> zettel) list \<Rightarrow> string \<Rightarrow> string set" where
  "linking_zids al k = set (map zid (filter (\<lambda>a. k \<in> set (links a)) (map snd al)))"

definition dangling_links :: "zettelkasten \<Rightarrow> string list" where
  "dangling_links zk = filter (\<lambda>l. lookup zk l = None) (concat (map links (zettels zk)))"

definition same_but_depth :: "string \<times> zettel \<Rightarrow> string \<times> zettel \<Rightarrow> bool" where
  "same_but_depth p q \<longleftrightarrow>
     fst q = fst p \<and> (snd q)\<lparr>depth := None\<rparr> = (snd p)\<lparr>depth := None\<rparr> \<and>
     (depth (snd p) \<noteq> None \<longrightarrow> depth (snd q) \<noteq> None)"

definition depth_frame :: "zettelkasten \<Rightarrow> zettelkasten \<Rightarrow> bool" where
  "depth_frame zk zk' \<longleftrightarrow> list_all2 same_but_depth (zid2zettel zk) (zid2zettel zk')"

definition pending :: "zettelkasten \<Rightarrow> nat" where
  "pending zk = length (filter (\<lambda>z. depth z = None) (zettels zk))"

definition depth_of :: "zettelkasten \<Rightarrow> string \<Rightarrow> int option" where
  "depth_of zk k = (case lookup zk k of None \<Rightarrow> None | Some z \<Rightarrow> depth z)"

definition adj :: "zettelkasten \<Rightarrow> string \<Rightarrow> string list option" where
  "adj zk k = map_option links (lookup zk k)"

text \<open>Notes reachable from the root by following links between registered notes.\<close>

inductive reachable :: "zettelkasten \<Rightarrow> string \<Rightarrow> bool" for zk where
  root: "lookup zk root_zid = Some z \<Longrightarrow> reachable zk root_zid"
| step: "reachable zk k \<Longrightarrow> lookup zk k = Some z \<Longrightarrow> k' \<in> set (links z) \<Longrightarrow>
         lookup zk k' = Some z' \<Longrightarrow> reachable zk k'"

definition closed_new :: "zettelkasten \<Rightarrow> zettelkasten \<Rightarrow> bool" where
  "closed_new zk zk' \<longleftrightarrow>
     (\<forall>x ls. depth_of zk x = None \<longrightarrow> depth_of zk' x \<noteq> None \<longrightarrow> adj zk x = Some ls \<longrightarrow>
        (\<forall>y \<in> set ls. adj zk y \<noteq> None \<longrightarrow> depth_of zk' y \<noteq> None))"

subsection \<open>Example collections\<close>

text \<open>
  The two notes of the specification's example: the root links to \<open>20230101000001\<close>,
  which links back to the root.
\<close>

definition ex_root :: zettel where
  "ex_root = \<lparr>path = ''00000000000000.md'', zid = ''00000000000000'',
     links = [''20230101000001''], title = '''', tags = {}, backlinks = {}, depth = None\<rparr>"

definition ex_note :: zettel where
  "ex_note = \<lparr>path = ''20230101000001.md'', zid = ''20230101000001'',
     links = [''00000000000000''], title = '''', tags = {}, backlinks = {}, depth = None\<rparr>"

definition cycle_example :: zettelkasten where
  "cycle_example = Zettelkasten_init [ex_root, ex_note]"

definition cycle_example_final :: zettelkasten where
  "cycle_example_final =
     \<lparr>zid2zettel =
        [(''00000000000000'', ex_root\<lparr>backlinks := {''20230101000001''}, depth := Some 2\<rparr>),
         (''20230101000001'', ex_note\<lparr>backlinks := {''00000000000000''}, depth := Some 1\<rparr>)],
      finalized = True, errors = []\<rparr>"

text \<open>
  A collection with a dangling link: the root also links to \<open>20230101000002\<close>, which is not
  registered.
\<close>

definition dangling_example :: zettelkasten where
  "dangling_example =
     Zettelkasten_init [ex_root\<lparr>links := [''20230101000001'', ''20230101000002'']\<rparr>, ex_note]"

definition dangling_example_final :: zettelkasten where
  "dangling_example_final =
     \<lparr>zid2zettel =
        [(''00000000000000'',
          ex_root\<lparr>links := [''20230101000001'', ''20230101000002''],
                  backlinks := {''20230101000001''}, depth := Some 2\<rparr>),
         (''20230101000001'', ex_note\<lparr>backlinks := {''00000000000000''}, depth := Some 1\<rparr>)],
      finalized = True,
      errors = [''Could not find zettel with ZID 20230101000002'',
                ''Could not find zettel with ZID 20230101000002'',
                ''Could not find zettel with ZID 20230101000002'']\<rparr>"

text \<open>
  A collection finalized with the root alone and finalized again after the second note was
  registered.
\<close>

definition late_example :: "zettelkasten option" where
  "late_example =
     map_option (add_zettels [ex_note]) (finalize 2 (Zettelkasten_init [ex_root]))"

definition late_example_state :: zettelkasten where
  "late_example_state =
     \<lparr>zid2zettel =
        [(''00000000000000'', ex_root\<lparr>depth := Some 0\<rparr>), (''20230101000001'', ex_note)],
      finalized = False,
      errors = [''Could not find zettel with ZID 20230101000001'',
                ''Could not find zettel with ZID 20230101000001'',
                ''Could not find zettel with ZID 20230101000001'']\<rparr>"

definition late_example_final :: zettelkasten where
  "late_example_final =
     late_example_state\<lparr>zid2zettel :=
        [(''00000000000000'', ex_root\<lparr>backlinks := {''20230101000001''}, depth := Some 0\<rparr>),
         (''20230101000001'', ex_note\<lparr>backlinks := {''00000000000000''}\<rparr>)], finalized := True\<rparr>"

section \<open>String operations of the Python library\<close>

text \<open>
  A character is a code point below 256. \<open>is_space\<close> is \<open>str.isspace\<close> on one character,
  which is also what \<open>str.strip()\<close> removes and what \<open>\s\<close> matches in a regular expression
  on \<open>str\<close>: tab, line feed, vertical tab, form feed, carriage return, the separators
  28 to 31, the space, and in Latin-1 the next-line and no-break space characters.
\<close>

datatype py_error = IndexError | AssertionError | AttributeError

definition is_space :: "char \<Rightarrow> bool" where
  "is_space c = ((of_char c :: nat) \<in> {9, 10, 11, 12, 13, 28, 29, 30, 31, 32, 133, 160})"

definition is_digit :: "char \<Rightarrow> bool" where
  "is_digit c = (c \<in> set ''0123456789'')"

text \<open>\<open>str.lower()\<close>, on the letters of ASCII and of Latin-1.\<close>

definition lower_char :: "char \<Rightarrow> char" where
  "lower_char c =
     (case map_of (zip ''ABCDEFGHIJKLMNOPQRSTUVWXYZ'' ''abcdefghijklmnopqrstuvwxyz'') c of
        Some l \<Rightarrow> l
      | None \<Rightarrow>
          (let n = (of_char c :: nat)
           in if 192 \<le> n \<and> n \<le> 222 \<and> n \<noteq> 215 then char_of (n + 32) else c))"

definition lower :: "string \<Rightarrow> string" where
  "lower s = map lower_char s"

definition startswith :: "string \<Rightarrow> string \<Rightarrow> bool" where
  "startswith s p = (take (length p) s = p)"

definition endswith :: "string \<Rightarrow> string \<Rightarrow> bool" where
  "endswith s p = (length p \<le> length s \<and> drop (length s - length p) s = p)"

text \<open>\<open>sub in s\<close>.\<close>

fun substring_in :: "string \<Rightarrow> string \<Rightarrow> bool" where
  "substring_in sub [] = (sub = [])"
| "substring_in sub (c # cs) = (startswith (c # cs) sub \<or> substring_in sub cs)"

definition strip :: "string \<Rightarrow> string" where
  "strip s = rev (dropWhile is_space (rev (dropWhile is_space s)))"

text \<open>
  \<open>s.split(sep)\<close> for a separator that is not empty (Python raises \<open>ValueError\<close> for the
  empty one; the calls modelled here pass a literal): \<open>split_from sep acc s\<close> scans
  \<open>s\<close> with \<open>acc\<close> the piece read so far.
\<close>

function split_from :: "string \<Rightarrow> string \<Rightarrow> string \<Rightarrow> string list" where
  "split_from sep acc [] = [acc]"
| "split_from sep acc (c # cs) =
     (if sep \<noteq> [] \<and> startswith (c # cs) sep
      then acc # split_from sep [] (drop (length sep - 1) cs)
      else split_from sep (acc @ [c]) cs)"
  by pat_completeness auto
termination
  by (relation "measure (\<lambda>(sep, acc, s). length s)") auto

definition str_split :: "string \<Rightarrow> string \<Rightarrow> string list" where
  "str_split s sep = split_from sep [] s"

text \<open>\<open>sep.join(xs)\<close>.\<close>

fun join :: "string \<Rightarrow> string list \<Rightarrow> string" where
  "join sep [] = []"
| "join sep [x] = x"
| "join sep (x # y # ys) = x @ sep @ join sep (y # ys)"

text \<open>\<open>xs[i]\<close> for an index that is not negative.\<close>

definition index :: "'a list \<Rightarrow> nat \<Rightarrow> py_error + 'a" where
  "index xs i = (if i < length xs then Inr (xs ! i) else Inl IndexError)"

text \<open>
  \<open>f.readlines()\<close> on the text of a file: the lines with their terminators; a last line
  without one is kept as it is.
\<close>

fun readlines_from :: "string \<Rightarrow> string \<Rightarrow> string list" where
  "readlines_from acc [] = (if acc = [] then [] else [acc])"
| "readlines_from acc (c # cs) =
     (if c = CHR ''\<newline>'' then (acc @ [c]) # readlines_from [] cs
      else readlines_from (acc @ [c]) cs)"

definition readlines :: "string \<Rightarrow> string list" where
  "readlines content = readlines_from [] content"

section \<open>Notes, continued: the constructor (\<open>zettel.py\<close>)\<close>

text \<open>\<open>id_regex.findall\<close> for \<open>[0-9]{14}\<close>: the runs of 14 digits, left to right, not overlapping.\<close>

function id_findall :: "string \<Rightarrow> string list" where
  "id_findall s =
     (if length s < 14 then []
      else if list_all is_digit (take 14 s) then take 14 s # id_findall (drop 14 s)
      else id_findall (tl s))"
  by pat_completeness auto
termination
  by (relation "measure length") (auto simp: Suc_le_eq)

declare id_findall.simps [simp del]

text \<open>
  \<open>tag_regex.findall\<close> for \<open>#\S*\<close>: each match is a hash and the characters after it up to
  the next white space.
\<close>

function tag_findall :: "string \<Rightarrow> string list" where
  "tag_findall [] = []"
| "tag_findall (c # cs) =
     (if c = CHR ''#''
      then (c # takeWhile (\<lambda>x. \<not> is_space x) cs) # tag_findall (dropWhile (\<lambda>x. \<not> is_space x) cs)
      else tag_findall cs)"
  by pat_completeness auto
termination
  by (relation "measure length") (auto simp: length_dropWhile_le less_Suc_eq_le)

text \<open>\<open>set(t[1:] for t in set(self.tag_regex.findall(line)))\<close>.\<close>

definition read_tags :: "string \<Rightarrow> string set" where
  "read_tags line = set (map (drop 1) (tag_findall line))"

text \<open>The final component of a path that \<open>pathlib\<close> has normalised.\<close>

definition path_name :: "string \<Rightarrow> string" where
  "path_name p = rev (takeWhile (\<lambda>c. c \<noteq> CHR ''/'') (rev p))"

definition get_zid :: "string \<Rightarrow> string" where
  "get_zid p = (case id_findall (path_name p) of [] \<Rightarrow> path_name p | m # _ \<Rightarrow> m)"

text \<open>The body of the loop of \<open>analyze_file\<close>, for one line.\<close>

definition analyze_line ::
  "string \<Rightarrow> 'a zettel_base_scheme \<Rightarrow> py_error + 'a zettel_base_scheme" where
  "analyze_line line z =
     (case (if startswith line ''# ''
            then (case index (str_split line ''# '') 1 of
                    Inl e \<Rightarrow> Inl e
                  | Inr t \<Rightarrow> Inr (z\<lparr>title := strip t\<rparr>))
            else Inr z) of
        Inl e \<Rightarrow> Inl e
      | Inr z1 \<Rightarrow>
          (let z2 = (if substring_in ''tags: '' (lower line)
                     then z1\<lparr>tags := read_tags line\<rparr> else z1)
           in Inr (z2\<lparr>links := links z2 @ id_findall line\<rparr>)))"

fun analyze_lines ::
  "string list \<Rightarrow> 'a zettel_base_scheme \<Rightarrow> py_error + 'a zettel_base_scheme" where
  "analyze_lines [] z = Inr z"
| "analyze_lines (line # ls) z =
     (case analyze_line line z of Inl e \<Rightarrow> Inl e | Inr z' \<Rightarrow> analyze_lines ls z')"

text \<open>\<open>analyze_file\<close>, given the text of the file at \<open>self.path\<close>.\<close>

definition analyze_file ::
  "string \<Rightarrow> 'a zettel_base_scheme \<Rightarrow> py_error + 'a zettel_base_scheme" where
  "analyze_file content z = analyze_lines (readlines content) (z\<lparr>links := []\<rparr>)"

text \<open>\<open>Zettel(path)\<close>, given the text of the file at \<open>path\<close>.\<close>

definition Zettel_init :: "string \<Rightarrow> string \<Rightarrow> py_error + zettel_obj" where
  "Zettel_init p content =
     analyze_file content
       \<lparr>path = p, zid = get_zid p, links = [], title = '''', tags = {},
        backlinks_attr = None, depth_attr = None\<rparr>"

text \<open>
  \<open>_format_tags\<close> (\<open>note_transformer.py\<close>), given the elements of \<open>tags\<close> in the order in
  which the iterable yields them.
\<close>

definition format_tags :: "string list \<Rightarrow> string" where
  "format_tags tags_list =
     ''Tags: '' @ join '' '' (map (\<lambda>tag. ''#'' @ tag) (sort tags_list)) @ ''\<newline>''"

text \<open>
  The heading text that \<open>analyze_file\<close> takes from a line that starts with \<open># \<close>: what
  stands between that marker and the next occurrence of \<open># \<close> (or the end of the line),
  stripped.
\<close>

definition heading_text :: "string \<Rightarrow> string" where
  "heading_text line = (case str_split line ''# '' of _ # t # _ \<Rightarrow> strip t | _ \<Rightarrow> '''')"

definition is_heading :: "string \<Rightarrow> bool" where
  "is_heading line = startswith line ''# ''"

section \<open>The collection of objects (\<open>zettelkasten.py\<close> on notes as the constructor builds them)\<close>

text \<open>
  The same statements as above, on objects that may lack an attribute: reading
  \<open>mother.depth\<close> or the \<open>backlinks\<close> of a link target from an object without that attribute
  raises \<open>AttributeError\<close>, and an assignment creates the attribute. The suffix \<open>_obj\<close>
  marks these versions.
\<close>

record zettelkasten_obj =
  obj_zid2zettel :: "(string \<times> zettel_obj) list"
  obj_finalized :: bool
  obj_errors :: "string list"

definition logger_error_obj :: "string \<Rightarrow> zettelkasten_obj \<Rightarrow> zettelkasten_obj" where
  "logger_error_obj msg k = k\<lparr>obj_errors := obj_errors k @ [msg]\<rparr>"

definition add_zettels_obj :: "zettel_obj list \<Rightarrow> zettelkasten_obj \<Rightarrow> zettelkasten_obj" where
  "add_zettels_obj zs k =
     fold (\<lambda>z c. c\<lparr>obj_zid2zettel := AList.update (zid z) z (obj_zid2zettel c)\<rparr>) zs
       (k\<lparr>obj_finalized := False\<rparr>)"

definition Zettelkasten_init_obj :: "zettel_obj list \<Rightarrow> zettelkasten_obj" where
  "Zettelkasten_init_obj zs =
     (add_zettels_obj zs \<lparr>obj_zid2zettel = [], obj_finalized = False, obj_errors = []\<rparr>)
       \<lparr>obj_finalized := False\<rparr>"

text \<open>\<open>zettel.backlinks = set()\<close> for every note: the assignment creates the attribute.\<close>

definition reset_backlinks_obj :: "zettelkasten_obj \<Rightarrow> zettelkasten_obj" where
  "reset_backlinks_obj k =
     k\<lparr>obj_zid2zettel :=
         map (\<lambda>(key, z). (key, z\<lparr>backlinks_attr := Some {}\<rparr>)) (obj_zid2zettel k)\<rparr>"

text \<open>
  \<open>self.zid2zettel[linked_zid].backlinks.add(zettel.zid)\<close>: the \<open>KeyError\<close> is caught and
  logged, an \<open>AttributeError\<close> is not caught.
\<close>

definition add_backlink_obj ::
  "string \<Rightarrow> string \<Rightarrow> zettelkasten_obj \<Rightarrow> py_error + zettelkasten_obj" where
  "add_backlink_obj src linked_zid k =
     (case map_of (obj_zid2zettel k) linked_zid of
        Some t \<Rightarrow>
          (case backlinks_attr t of
             None \<Rightarrow> Inl AttributeError
           | Some b \<Rightarrow>
               Inr (k\<lparr>obj_zid2zettel :=
                        AList.map_entry linked_zid
                          (\<lambda>t. t\<lparr>backlinks_attr := map_option (insert src) (backlinks_attr t)\<rparr>)
                          (obj_zid2zettel k)\<rparr>))
      | None \<Rightarrow> Inr (logger_error_obj (could_not_find linked_zid) k))"

fun add_links_obj ::
  "string \<Rightarrow> string list \<Rightarrow> zettelkasten_obj \<Rightarrow> py_error + zettelkasten_obj" where
  "add_links_obj src [] k = Inr k"
| "add_links_obj src (linked_zid # ls) k =
     (case add_backlink_obj src linked_zid k of
        Inl e \<Rightarrow> Inl e
      | Inr k' \<Rightarrow> add_links_obj src ls k')"

fun add_backlinks_obj ::
  "zettel_obj list \<Rightarrow> zettelkasten_obj \<Rightarrow> py_error + zettelkasten_obj" where
  "add_backlinks_obj [] k = Inr k"
| "add_backlinks_obj (zettel # zs) k =
     (case add_links_obj (zid zettel) (links zettel) k of
        Inl e \<Rightarrow> Inl e
      | Inr k' \<Rightarrow> add_backlinks_obj zs k')"

definition update_backlinks_obj :: "zettelkasten_obj \<Rightarrow> py_error + zettelkasten_obj" where
  "update_backlinks_obj k =
     (let k1 = reset_backlinks_obj k in add_backlinks_obj (map snd (obj_zid2zettel k1)) k1)"

definition set_depth_obj :: "string \<Rightarrow> int \<Rightarrow> zettelkasten_obj \<Rightarrow> zettelkasten_obj" where
  "set_depth_obj key d k =
     k\<lparr>obj_zid2zettel :=
         AList.map_entry key (\<lambda>t. t\<lparr>depth_attr := Some (Some d)\<rparr>) (obj_zid2zettel k)\<rparr>"

definition assign_daughter_obj :: "string \<Rightarrow> int \<Rightarrow> zettelkasten_obj \<Rightarrow> zettelkasten_obj" where
  "assign_daughter_obj daughter d k =
     (case map_of (obj_zid2zettel k) daughter of
        Some t \<Rightarrow> set_depth_obj daughter d k
      | None \<Rightarrow> logger_error_obj (could_not_find daughter) k)"

text \<open>
  \<open>_update_depths\<close>: the test \<open>mother.depth is not None\<close> reads the attribute first, and
  raises \<open>AttributeError\<close> when the note has none.
\<close>

fun update_depths_obj ::
    "nat \<Rightarrow> zettelkasten_obj \<Rightarrow> string \<Rightarrow> int \<Rightarrow> (py_error + zettelkasten_obj) option"
  and update_depths_loop_obj ::
    "nat \<Rightarrow> zettelkasten_obj \<Rightarrow> string list \<Rightarrow> int \<Rightarrow> (py_error + zettelkasten_obj) option"
where
  "update_depths_obj 0 k mother mother_depth = None"
| "update_depths_obj (Suc n) k mother mother_depth =
     (case map_of (obj_zid2zettel k) mother of
        None \<Rightarrow> Some (Inr (logger_error_obj (could_not_find mother) k))
      | Some m \<Rightarrow>
          (case depth_attr m of
             None \<Rightarrow> Some (Inl AttributeError)
           | Some (Some d) \<Rightarrow> Some (Inr k)
           | Some None \<Rightarrow>
               update_depths_loop_obj n (set_depth_obj mother mother_depth k) (links m)
                 mother_depth))"
| "update_depths_loop_obj n k [] mother_depth = Some (Inr k)"
| "update_depths_loop_obj n k (daughter # ds) mother_depth =
     (case update_depths_obj n k daughter (mother_depth + 1) of
        None \<Rightarrow> None
      | Some (Inl e) \<Rightarrow> Some (Inl e)
      | Some (Inr k') \<Rightarrow>
          update_depths_loop_obj n (assign_daughter_obj daughter (mother_depth + 1) k') ds
            mother_depth)"

definition finalize_obj :: "nat \<Rightarrow> zettelkasten_obj \<Rightarrow> (py_error + zettelkasten_obj) option" where
  "finalize_obj n k =
     (case update_backlinks_obj k of
        Inl e \<Rightarrow> Some (Inl e)
      | Inr k1 \<Rightarrow>
          (case update_depths_obj n k1 root_zid 0 of
             None \<Rightarrow> None
           | Some (Inl e) \<Rightarrow> Some (Inl e)
           | Some (Inr k2) \<Rightarrow> Some (Inr (k2\<lparr>obj_finalized := True\<rparr>))))"

text \<open>
  A note of the collection above, seen as an object: both attributes exist.
\<close>

definition obj_of :: "zettel \<Rightarrow> zettel_obj" where
  "obj_of z =
     \<lparr>path = path z, zid = zid z, links = links z, title = title z, tags = tags z,
      backlinks_attr = Some (backlinks z), depth_attr = Some (depth z)\<rparr>"

definition kasten_obj :: "zettelkasten \<Rightarrow> zettelkasten_obj" where
  "kasten_obj zk =
     \<lparr>obj_zid2zettel = map (\<lambda>(key, z). (key, obj_of z)) (zid2zettel zk),
      obj_finalized = finalized zk, obj_errors = errors zk\<rparr>"

text \<open>
  Two notes as the constructor builds them from their files: the root, which links to
  \<open>20230101000001\<close> and to \<open>20230101000002\<close>, and the note \<open>20230101000001\<close>, which links
  back to the root. No file gives a note \<open>20230101000002\<close>.
\<close>

definition root_built :: zettel_obj where
  "root_built =
     \<lparr>path = ''/zk/00000000000000.md'', zid = ''00000000000000'',
      links = [''20230101000001'', ''20230101000002''], title = ''Root'', tags = {},
      backlinks_attr = None, depth_attr = None\<rparr>"

definition note_built :: zettel_obj where
  "note_built =
     \<lparr>path = ''/zk/20230101000001.md'', zid = ''20230101000001'',
      links = [''00000000000000''], title = ''Note'', tags = {},
      backlinks_attr = None, depth_attr = None\<rparr>"

text \<open>The root of a two-note cycle: its only link is to \<open>20230101000001\<close>.\<close>

definition cycle_root_built :: zettel_obj where
  "cycle_root_built =
     \<lparr>path = ''/zk/00000000000000.md'', zid = ''00000000000000'',
      links = [''20230101000001''], title = ''Root'', tags = {},
      backlinks_attr = None, depth_attr = None\<rparr>"

section \<open>The rewrite pipeline (\<open>note_transformer.py\<close>)\<close>

subsection \<open>Library operations and the parts of \<open>Note\<close> that the pipeline calls\<close>

text \<open>
  \<open>s.replace(old, new)\<close> for an \<open>old\<close> that is not empty (the pipeline passes a match of a
  regular expression): every occurrence, left to right, not overlapping.
\<close>

function str_replace :: "string \<Rightarrow> string \<Rightarrow> string \<Rightarrow> string" where
  "str_replace old new [] = []"
| "str_replace old new (c # cs) =
     (if old \<noteq> [] \<and> startswith (c # cs) old
      then new @ str_replace old new (drop (length old - 1) cs)
      else c # str_replace old new cs)"
  by pat_completeness auto
termination
  by (relation "measure (\<lambda>(old, new, s). length s)") auto

text \<open>
  \<open>os.path.relpath(p, start)\<close> and \<open>str(path.parent)\<close> for POSIX paths without \<open>..\<close>
  components that are both absolute or both relative to the current directory: the
  empty and the \<open>.\<close> components do not count.
\<close>

definition path_parts :: "string \<Rightarrow> string list" where
  "path_parts p = filter (\<lambda>s. s \<noteq> [] \<and> s \<noteq> ''.'') (str_split p ''/'')"

fun common_parts :: "string list \<Rightarrow> string list \<Rightarrow> nat" where
  "common_parts (x # xs) (y # ys) = (if x = y then Suc (common_parts xs ys) else 0)"
| "common_parts xs ys = 0"

definition relpath :: "string \<Rightarrow> string \<Rightarrow> string" where
  "relpath p start =
     (let ps = path_parts p; ss = path_parts start; n = common_parts ps ss;
          r = replicate (length ss - n) ''..'' @ drop n ps
      in if r = [] then ''.'' else join ''/'' r)"

definition path_parent :: "string \<Rightarrow> string" where
  "path_parent p =
     (let d = rev (drop 1 (dropWhile (\<lambda>c. c \<noteq> CHR ''/'') (rev p)))
      in if CHR ''/'' \<notin> set p then ''.'' else if d = [] then ''/'' else d)"

text \<open>
  Modelled from the spec: the module \<open>verzettler.note\<close> is not among the sources. The
  pipeline uses \<open>Note.id_link_regex_no_group\<close>, which finds the bare identifier links (an id
  wrapped in double brackets), and \<open>Note.autogen_link_regex\<close>, which recognises the
  decoration that \<open>_format_link\<close> writes after a bare link: a space, the title in brackets
  and, in parentheses, the relative path followed by the marker \<open>"autogen"\<close>. \<open>Note.id_regex\<close>
  and \<open>Note._read_tags\<close> are taken to be \<open>id_regex\<close> and the tag extraction of \<open>zettel.py\<close>, and
  the attributes \<open>nid\<close>, \<open>path\<close>, \<open>title\<close> and \<open>tags\<close> of a \<open>Note\<close> to be \<open>zid\<close>, \<open>path\<close>, \<open>title\<close>
  and \<open>tags\<close> of a \<open>zettel\<close>.
\<close>

function id_link_findall :: "string \<Rightarrow> string list" where
  "id_link_findall s =
     (if length s < 18 then []
      else if take 2 s = ''[['' \<and> list_all is_digit (take 14 (drop 2 s)) \<and>
              take 2 (drop 16 s) = '']]''
      then take 18 s # id_link_findall (drop 18 s)
      else id_link_findall (tl s))"
  by pat_completeness auto
termination
  by (relation "measure length") (auto simp: Suc_le_eq)

declare id_link_findall.simps [simp del]

definition autogen_marker :: string where
  "autogen_marker = CHR 0x22 # ''autogen'' @ [CHR 0x22]"

definition autogen_match :: "string \<Rightarrow> nat option" where
  "autogen_match s =
     (if startswith s '' [''
      then (let t = takeWhile (\<lambda>c. c \<noteq> CHR '']'') (drop 2 s);
                r1 = drop (2 + length t) s
            in if startswith r1 ''](''
               then (let p = takeWhile (\<lambda>c. c \<noteq> CHR '')'') (drop 2 r1);
                         r2 = drop (2 + length p) r1
                     in if startswith r2 '')'' \<and> endswith p ('' '' @ autogen_marker)
                        then Some (length t + length p + 5) else None)
               else None)
      else None)"

function autogen_link_sub :: "string \<Rightarrow> string" where
  "autogen_link_sub [] = []"
| "autogen_link_sub (c # cs) =
     (case autogen_match (c # cs) of
        Some n \<Rightarrow> autogen_link_sub (drop (n - 1) cs)
      | None \<Rightarrow> c # autogen_link_sub cs)"
  by pat_completeness auto
termination
  by (relation "measure length") auto

text \<open>
  Modelled from the spec: \<open>Zettelkasten.get_backlinks\<close> is called by the pipeline and is
  not defined in \<open>zettelkasten.py\<close>; it returns the note's computed backlinks, or the empty
  set when the id is not registered.
\<close>

definition get_backlinks :: "zettelkasten \<Rightarrow> string \<Rightarrow> string set" where
  "get_backlinks k nid = (case lookup k nid of None \<Rightarrow> {} | Some z \<Rightarrow> backlinks z)"

subsection \<open>\<open>DefaultTransformer\<close>\<close>

text \<open>
  A line of the \<open>MarkdownReader\<close> (its attribute \<open>text\<close> is \<open>md_text\<close> here). The module
  \<open>verzettler.markdown_reader\<close> is not among the sources: \<open>transform\<close> takes the lines that
  \<open>MarkdownReader.from_file(note.path).lines\<close> returns as an argument.
\<close>

record md_line =
  md_text :: string
  is_code_block :: bool
  current_section :: "string list"
  is_last_line :: bool

text \<open>The attributes of a \<open>DefaultTransformer\<close>; \<open>t_zk\<close> is \<open>self.zk\<close>.\<close>

record transformer =
  t_zk :: zettelkasten
  tag_transformer :: "string set \<Rightarrow> string set"

text \<open>The variables of the loop of \<open>transform\<close>: \<open>out_lines\<close> and the lines of the reader.\<close>

record tstate =
  out_lines :: "string list"
  lines :: "md_line list"

definition format_link :: "transformer \<Rightarrow> zettel \<Rightarrow> string \<Rightarrow> string" where
  "format_link t note z =
     (case lookup (t_zk t) z of
        Some target \<Rightarrow>
          ''[['' @ z @ '']] ['' @ title target @ '']('' @
            relpath (path target) (path_parent (path note)) @ '' '' @ autogen_marker @ '')''
      | None \<Rightarrow> ''[['' @ z @ '']]'')"

text \<open>\<open>md_line.text = txt\<close>, for the line with index \<open>i\<close>.\<close>

definition set_text :: "nat \<Rightarrow> string \<Rightarrow> tstate \<Rightarrow> tstate" where
  "set_text i txt st = st\<lparr>lines := (lines st)[i := (lines st ! i)\<lparr>md_text := txt\<rparr>]\<rparr>"

text \<open>
  ``Change style of headers'': one of the two \<open>if\<close> statements, for the underline
  \<open>===\<close> with the prefix \<open># \<close> and for \<open>---\<close> with \<open>## \<close>.
\<close>

definition change_header :: "string \<Rightarrow> string \<Rightarrow> nat \<Rightarrow> tstate \<Rightarrow> tstate" where
  "change_header underline prefix i st =
     (if i > 1 \<and> \<not> is_code_block (lines st ! i) \<and>
         startswith (md_text (lines st ! i)) underline \<and>
         strip (md_text (lines st ! (i - 1))) \<noteq> []
      then set_text i (prefix @ md_text (lines st ! (i - 1)))
             (st\<lparr>out_lines := butlast (out_lines st)\<rparr>)
      else st)"

definition change_headers :: "nat \<Rightarrow> tstate \<Rightarrow> tstate" where
  "change_headers i st = change_header ''---'' ''## '' i (change_header ''==='' ''# '' i st)"

text \<open>``Modifying tags if haven't been given before''.\<close>

definition insert_tags :: "transformer \<Rightarrow> zettel \<Rightarrow> nat \<Rightarrow> tstate \<Rightarrow> tstate" where
  "insert_tags t note i st =
     (if tags note = {} \<and> i \<ge> 1 \<and> startswith (md_text (lines st ! (i - 1))) ''# '' \<and>
         \<not> is_code_block (lines st ! i)
      then (let tgs = tag_transformer t {}
            in if tgs \<noteq> {}
               then st\<lparr>out_lines := out_lines st @ [''\<newline>'', format_tags (sorted_list_of_set tgs)]\<rparr>
               else st)
      else st)"

text \<open>``Add new links'': the loop over the bare links found in the line.\<close>

fun replace_links :: "transformer \<Rightarrow> zettel \<Rightarrow> string list \<Rightarrow> string \<Rightarrow> py_error + string" where
  "replace_links t note [] txt = Inr txt"
| "replace_links t note (link # ls) txt =
     (case id_findall link of
        [z] \<Rightarrow> replace_links t note ls (str_replace link (format_link t note z) txt)
      | _ \<Rightarrow> Inl AssertionError)"

text \<open>``Add new backlinks section to file'', on \<open>out_lines\<close>.\<close>

definition add_backlinks_section :: "transformer \<Rightarrow> zettel \<Rightarrow> string list \<Rightarrow> string list" where
  "add_backlinks_section t note out =
     (let bl = get_backlinks (t_zk t) (zid note)
      in if bl \<noteq> {}
         then (if out \<noteq> [] \<and> last out = ''\<newline>'' then out
               else if out \<noteq> [] \<and> endswith (last out) ''\<newline>'' then out @ [''\<newline>'']
               else if out \<noteq> [] \<and> \<not> endswith (last out) ''\<newline>''
               then out @ [''\<newline>'', ''\<newline>'']
               else out) @
              [''## Backlinks\<newline>'', ''\<newline>''] @
              map (\<lambda>b. ''* '' @ format_link t note b @ ''\<newline>'') (sorted_list_of_set bl)
         else out)"

text \<open>
  The loop body from ``Replacing/extending links'' to its end: the links, the removal of
  an old backlinks section, the line added to \<open>out_lines\<close>, the new backlinks section.
\<close>

definition links_and_emit :: "transformer \<Rightarrow> zettel \<Rightarrow> nat \<Rightarrow> tstate \<Rightarrow> py_error + tstate" where
  "links_and_emit t note i st =
     (let md = lines st ! i; txt0 = autogen_link_sub (md_text md)
      in case replace_links t note (id_link_findall txt0) txt0 of
           Inl e \<Rightarrow> Inl e
         | Inr txt \<Rightarrow>
             (let st1 = set_text i txt st;
                  remove_line = (length (current_section md) = 2 \<and>
                                 lower (last (current_section md)) = ''backlinks'');
                  st2 = (if \<not> remove_line then st1\<lparr>out_lines := out_lines st1 @ [txt]\<rparr> else st1)
              in Inr (if is_last_line md
                      then st2\<lparr>out_lines := add_backlinks_section t note (out_lines st2)\<rparr>
                      else st2)))"

text \<open>
  The loop body after ``Change style of headers'': the two tag rules, then the rest.
  The \<open>continue\<close> of an emptied tag line ends the iteration.
\<close>

definition after_headers :: "transformer \<Rightarrow> zettel \<Rightarrow> nat \<Rightarrow> tstate \<Rightarrow> py_error + tstate" where
  "after_headers t note i st =
     (let st1 = insert_tags t note i st; md = lines st1 ! i
      in if substring_in ''tags: '' (lower (md_text md)) \<and> \<not> is_code_block md
         then (let tgs = tag_transformer t (read_tags (md_text md))
               in if tgs = {} then Inr st1
                  else links_and_emit t note i
                         (set_text i (format_tags (sorted_list_of_set tgs)) st1))
         else links_and_emit t note i st1)"

text \<open>The loop body, for the line with index \<open>i\<close>. ``Fixing'' ends the iteration with \<open>continue\<close>.\<close>

definition transform_line :: "transformer \<Rightarrow> zettel \<Rightarrow> nat \<Rightarrow> tstate \<Rightarrow> py_error + tstate" where
  "transform_line t note i st =
     (let md = lines st ! i
      in if is_code_block md \<and> substring_in ''tags: '' (lower (md_text md))
         then Inr (if i \<ge> 1 \<and> strip (md_text (lines st ! (i - 1))) = []
                   then st\<lparr>out_lines := butlast (out_lines st)\<rparr> else st)
         else after_headers t note i (change_headers i st))"

fun transform_loop :: "transformer \<Rightarrow> zettel \<Rightarrow> nat list \<Rightarrow> tstate \<Rightarrow> py_error + tstate" where
  "transform_loop t note [] st = Inr st"
| "transform_loop t note (i # is) st =
     (case transform_line t note i st of
        Inl e \<Rightarrow> Inl e
      | Inr st' \<Rightarrow> transform_loop t note is st')"

definition transform :: "transformer \<Rightarrow> zettel \<Rightarrow> md_line list \<Rightarrow> py_error + string" where
  "transform t note reader_lines =
     (case transform_loop t note [0..<length reader_lines]
             \<lparr>out_lines = [], lines = reader_lines\<rparr> of
        Inl e \<Rightarrow> Inl e
      | Inr st \<Rightarrow> Inr (concat (out_lines st)))"

subsection \<open>Example notes for the pipeline\<close>

definition ex_n :: zettel where
  "ex_n = \<lparr>path = ''/zk/20230101000001.md'', zid = ''20230101000001'', links = [],
     title = ''T'', tags = {}, backlinks = {''20230101000002''}, depth = None\<rparr>"

definition ex_b :: zettel where
  "ex_b = \<lparr>path = ''/zk/20230101000002.md'', zid = ''20230101000002'',
     links = [''20230101000001''], title = ''B'', tags = {}, backlinks = {}, depth = None\<rparr>"

definition ex_zk :: zettelkasten where
  "ex_zk = \<lparr>zid2zettel = [(''20230101000001'', ex_n), (''20230101000002'', ex_b)],
     finalized = True, errors = [''Could not find zettel with ZID 00000000000000'']\<rparr>"

definition ex_transformer :: transformer where
  "ex_transformer = \<lparr>t_zk = ex_zk, tag_transformer = (\<lambda>tgs. tgs)\<rparr>"

text \<open>A line outside code blocks, with its section path and its last-line mark.\<close>

definition reader_line :: "string list \<Rightarrow> string \<Rightarrow> bool \<Rightarrow> md_line" where
  "reader_line sec txt lst =
     \<lparr>md_text = txt, is_code_block = False, current_section = sec, is_last_line = lst\<rparr>"

text \<open>
  A file with a Setext heading on its third line, for the note \<open>ex_b\<close>, and the
  state of the loop of \<open>transform\<close> when it reaches that line.
\<close>

definition setext_lines :: "string \<Rightarrow> md_line list" where
  "setext_lines underline =
     [reader_line [] ''a\<newline>'' False, reader_line [] ''Title\<newline>'' False,
      reader_line [] underline False, reader_line [] ''body\<newline>'' True]"

definition setext_state :: "string \<Rightarrow> tstate" where
  "setext_state underline =
     \<lparr>out_lines = [''a\<newline>'', ''Title\<newline>''], lines = setext_lines underline\<rparr>"

text \<open>
  The lines of the file of \<open>ex_n\<close>, whose last line is a tag line with no tags, and
  the lines of what the pipeline writes for it.
\<close>

definition first_pass_lines :: "md_line list" where
  "first_pass_lines =
     [reader_line [''T''] ''# T\<newline>'' False, reader_line [''T''] ''text\<newline>'' False,
      reader_line [''T''] ''Tags: \<newline>'' True]"

definition second_pass_lines :: "md_line list" where
  "second_pass_lines =
     [reader_line [''T''] ''# T\<newline>'' False, reader_line [''T''] ''text\<newline>'' True]"


section \<open>Backlinks: the result of \<open>_update_backlinks\<close> in closed form\<close>

lemma map_entry_conv:
  "distinct (map fst al) \<Longrightarrow>
   AList.map_entry k f al = map (\<lambda>(k', z). (k', if k' = k then f z else z)) al"
proof (induction al)
  case Nil
  then show ?case by simp
next
  case (Cons p ps)
  obtain k' z where p: "p = (k', z)" by (cases p)
  show ?case
  proof (cases "k' = k")
    case True
    with Cons.prems p have "k \<notin> fst ` set ps" by simp
    then have "map (\<lambda>(k', z). (k', if k' = k then f z else z)) ps = ps"
      by (intro map_idI) (auto simp: rev_image_eqI)
    with True p show ?thesis by simp
  next
    case False
    with Cons p show ?thesis by simp
  qed
qed

lemma add_backlink_zid2zettel:
  assumes "distinct (map fst (zid2zettel zk))"
  shows "zid2zettel (add_backlink s l zk) =
     map (\<lambda>(k, z). (k, z\<lparr>backlinks := (if k = l then {s} else {}) \<union> backlinks z\<rparr>)) (zid2zettel zk)"
proof (cases "map_of (zid2zettel zk) l")
  case None
  then have "l \<notin> fst ` set (zid2zettel zk)" by (simp add: map_of_eq_None_iff)
  then have "map (\<lambda>(k, z). (k, z\<lparr>backlinks := (if k = l then {s} else {}) \<union> backlinks z\<rparr>)) (zid2zettel zk)
     = zid2zettel zk"
    by (intro map_idI) (auto simp: rev_image_eqI)
  with None show ?thesis by (simp add: add_backlink_def logger_error_def)
next
  case (Some t)
  then show ?thesis
    by (auto simp: add_backlink_def map_entry_conv [OF assms] split: prod.splits)
qed

lemma fst_comp_upd [simp]: "fst \<circ> (\<lambda>(k, z). (k, f k z)) = fst"
  by auto

lemma fold_add_backlink_zid2zettel:
  assumes "distinct (map fst (zid2zettel zk))"
  shows "zid2zettel (fold (add_backlink s) ls zk) =
     map (\<lambda>(k, z). (k, z\<lparr>backlinks := (if k \<in> set ls then {s} else {}) \<union> backlinks z\<rparr>)) (zid2zettel zk)"
  using assms
proof (induction ls arbitrary: zk)
  case Nil
  then show ?case by (simp add: map_idI split: prod.splits)
next
  case (Cons l ls)
  have d: "distinct (map fst (zid2zettel (add_backlink s l zk)))"
    using Cons.prems by (simp add: add_backlink_zid2zettel)
  show ?case
    by (simp add: Cons.IH [OF d] add_backlink_zid2zettel [OF Cons.prems])
       (auto split: prod.splits)
qed

lemma add_backlinks_zid2zettel:
  assumes "distinct (map fst (zid2zettel zk))"
  shows "zid2zettel (add_backlinks zs zk) =
     map (\<lambda>(k, z). (k, z\<lparr>backlinks := set (map zid (filter (\<lambda>a. k \<in> set (links a)) zs)) \<union> backlinks z\<rparr>))
       (zid2zettel zk)"
  using assms
proof (induction zs arbitrary: zk)
  case Nil
  then show ?case by (simp add: add_backlinks_def map_idI split: prod.splits)
next
  case (Cons a zs)
  let ?zk1 = "fold (add_backlink (zid a)) (links a) zk"
  have d: "distinct (map fst (zid2zettel ?zk1))"
    using Cons.prems by (simp add: fold_add_backlink_zid2zettel)
  have "zid2zettel (add_backlinks (a # zs) zk) = zid2zettel (add_backlinks zs ?zk1)"
    by (simp add: add_backlinks_def)
  then show ?case
    by (simp add: Cons.IH [OF d] fold_add_backlink_zid2zettel [OF Cons.prems])
       (auto split: prod.splits)
qed

lemma update_backlinks_zid2zettel:
  assumes "distinct (map fst (zid2zettel zk))"
  shows "zid2zettel (update_backlinks zk) =
     map (\<lambda>(k, z). (k, z\<lparr>backlinks := linking_zids (zid2zettel zk) k\<rparr>)) (zid2zettel zk)"
proof -
  have d: "distinct (map fst (zid2zettel (reset_backlinks zk)))"
    using assms by (simp add: reset_backlinks_def)
  have "set (map zid (filter (\<lambda>a. k \<in> set (links a)) (zettels (reset_backlinks zk))))
      = linking_zids (zid2zettel zk) k" for k
    by (simp add: linking_zids_def zettels_def reset_backlinks_def filter_map comp_def case_prod_unfold)
  then show ?thesis
    by (simp add: update_backlinks_def Let_def add_backlinks_zid2zettel [OF d])
       (simp add: reset_backlinks_def split: prod.splits)
qed

lemma add_backlink_lookup_None:
  "map_of (zid2zettel (add_backlink s l zk)) k = None \<longleftrightarrow> map_of (zid2zettel zk) k = None"
  by (simp add: add_backlink_def logger_error_def map_of_map_entry split: option.splits)

lemma fold_add_backlink_lookup_None:
  "map_of (zid2zettel (fold (add_backlink s) ls zk)) k = None \<longleftrightarrow> map_of (zid2zettel zk) k = None"
  by (induction ls arbitrary: zk) (simp_all add: add_backlink_lookup_None)

lemma add_backlink_errors:
  "errors (add_backlink s l zk) =
     errors zk @ map could_not_find (filter (\<lambda>l. map_of (zid2zettel zk) l = None) [l])"
  by (simp add: add_backlink_def logger_error_def split: option.splits)

lemma fold_add_backlink_errors:
  "errors (fold (add_backlink s) ls zk) =
     errors zk @ map could_not_find (filter (\<lambda>l. map_of (zid2zettel zk) l = None) ls)"
proof (induction ls arbitrary: zk)
  case Nil
  then show ?case by simp
next
  case (Cons l ls)
  show ?case
    by (simp add: Cons.IH add_backlink_errors add_backlink_lookup_None)
qed

lemma add_backlinks_lookup_None:
  "map_of (zid2zettel (add_backlinks zs zk)) k = None \<longleftrightarrow> map_of (zid2zettel zk) k = None"
  by (induction zs arbitrary: zk) (simp_all add: add_backlinks_def fold_add_backlink_lookup_None)

lemma add_backlinks_errors:
  "errors (add_backlinks zs zk) =
     errors zk @ map could_not_find
       (filter (\<lambda>l. map_of (zid2zettel zk) l = None) (concat (map links zs)))"
proof (induction zs arbitrary: zk)
  case Nil
  then show ?case by (simp add: add_backlinks_def)
next
  case (Cons a zs)
  have "add_backlinks (a # zs) zk = add_backlinks zs (fold (add_backlink (zid a)) (links a) zk)"
    by (simp add: add_backlinks_def)
  then show ?case
    by (simp add: Cons.IH fold_add_backlink_errors fold_add_backlink_lookup_None)
qed

lemma reset_backlinks_lookup_None:
  "map_of (zid2zettel (reset_backlinks zk)) k = None \<longleftrightarrow> map_of (zid2zettel zk) k = None"
  by (simp add: reset_backlinks_def map_of_eq_None_iff image_image case_prod_unfold)

lemma update_backlinks_errors:
  "errors (update_backlinks zk) = errors zk @ map could_not_find (dangling_links zk)"
proof -
  have "concat (map links (zettels (reset_backlinks zk))) = concat (map links (zettels zk))"
    by (simp add: zettels_def reset_backlinks_def comp_def case_prod_unfold)
  then show ?thesis
    by (simp add: update_backlinks_def Let_def add_backlinks_errors reset_backlinks_lookup_None
        dangling_links_def lookup_def)
       (simp add: reset_backlinks_def)
qed

lemma update_backlinks_finalized: "finalized (update_backlinks zk) = finalized zk"
proof -
  have a: "finalized (add_backlink s l k) = finalized k" for s l k
    by (simp add: add_backlink_def logger_error_def split: option.splits)
  have b: "finalized (fold (add_backlink s) ls k) = finalized k" for s ls k
    by (induction ls arbitrary: k) (simp_all add: a)
  have c: "finalized (add_backlinks zs k) = finalized k" for zs k
    by (induction zs arbitrary: k) (simp_all add: add_backlinks_def b)
  show ?thesis
    by (simp add: update_backlinks_def Let_def c reset_backlinks_def)
qed

lemma same_but_depth_refl: "same_but_depth p p"
  by (simp add: same_but_depth_def)

lemma same_but_depth_trans:
  "same_but_depth p q \<Longrightarrow> same_but_depth q r \<Longrightarrow> same_but_depth p r"
  by (simp add: same_but_depth_def)

lemma depth_frame_refl: "depth_frame zk zk"
  by (simp add: depth_frame_def list_all2_refl same_but_depth_refl)

lemma depth_frame_trans: "depth_frame a b \<Longrightarrow> depth_frame b c \<Longrightarrow> depth_frame a c"
  unfolding depth_frame_def
  using list_all2_trans [of same_but_depth same_but_depth same_but_depth] same_but_depth_trans
  by blast

lemma map_entry_depth_frame:
  "list_all2 same_but_depth al (AList.map_entry k (\<lambda>t. t\<lparr>depth := Some d\<rparr>) al)"
  by (induction al) (auto simp: same_but_depth_def list_all2_refl)

lemma set_depth_frame: "depth_frame zk (set_depth k d zk)"
  by (simp add: depth_frame_def set_depth_def map_entry_depth_frame)

lemma logger_error_frame: "depth_frame zk (logger_error m zk)"
  by (simp add: depth_frame_def logger_error_def list_all2_refl same_but_depth_refl)

lemma assign_daughter_frame: "depth_frame zk (assign_daughter k d zk)"
  by (simp add: assign_daughter_def set_depth_frame logger_error_frame split: option.splits)

lemma update_depths_frame:
  "update_depths n zk m d = Some zk' \<Longrightarrow> depth_frame zk zk'"
  "update_depths_loop n zk ls d = Some zk' \<Longrightarrow> depth_frame zk zk'"
proof (induction n zk m d and n zk ls d arbitrary: zk' and zk' rule: update_depths_update_depths_loop.induct)
  case (1 zk mother mother_depth)
  then show ?case by simp
next
  case (2 n zk mother mother_depth)
  show ?case
  proof (cases "map_of (zid2zettel zk) mother")
    case None
    with "2.prems" show ?thesis by (auto simp: logger_error_frame)
  next
    case (Some m)
    show ?thesis
    proof (cases "depth m")
      case None
      with Some "2.prems" have
        "update_depths_loop n (set_depth mother mother_depth zk) (links m) mother_depth = Some zk'"
        by simp
      from "2.IH" [OF Some None this] show ?thesis
        by (rule depth_frame_trans [OF set_depth_frame])
    next
      case (Some d)
      with \<open>map_of (zid2zettel zk) mother = Some m\<close> "2.prems" show ?thesis
        by (simp add: depth_frame_refl)
    qed
  qed
next
  case (3 n zk mother_depth)
  then show ?case by (simp add: depth_frame_refl)
next
  case (4 n zk daughter ds mother_depth)
  from "4.prems" obtain zk1 where
    u: "update_depths n zk daughter (mother_depth + 1) = Some zk1" and
    l: "update_depths_loop n (assign_daughter daughter (mother_depth + 1) zk1) ds mother_depth = Some zk'"
    by (auto split: option.splits)
  from "4.IH"(1) [OF u] have "depth_frame zk zk1" .
  moreover have "depth_frame zk1 (assign_daughter daughter (mother_depth + 1) zk1)"
    by (rule assign_daughter_frame)
  moreover from "4.IH"(2) [OF u l] have "depth_frame (assign_daughter daughter (mother_depth + 1) zk1) zk'" .
  ultimately show ?case by (blast intro: depth_frame_trans)
qed

lemma pending_set_depth_le: "pending (set_depth k d zk) \<le> pending zk"
proof -
  have "length (filter (\<lambda>z. depth z = None) (map snd (AList.map_entry k (\<lambda>t. t\<lparr>depth := Some d\<rparr>) al)))
      \<le> length (filter (\<lambda>z. depth z = None) (map snd al))" for al
    by (induction al) auto
  then show ?thesis by (simp add: pending_def zettels_def set_depth_def)
qed

lemma pending_set_depth_less:
  assumes "map_of (zid2zettel zk) k = Some m" "depth m = None"
  shows "Suc (pending (set_depth k d zk)) = pending zk"
proof -
  have "map_of al k = Some m \<Longrightarrow>
    Suc (length (filter (\<lambda>z. depth z = None) (map snd (AList.map_entry k (\<lambda>t. t\<lparr>depth := Some d\<rparr>) al))))
      = length (filter (\<lambda>z. depth z = None) (map snd al))" for al
    using assms(2) by (induction al) (auto split: if_splits)
  with assms(1) show ?thesis by (simp add: pending_def zettels_def set_depth_def)
qed

lemma pending_logger_error [simp]: "pending (logger_error msg zk) = pending zk"
  by (simp add: pending_def zettels_def logger_error_def)

lemma pending_assign_daughter_le: "pending (assign_daughter k d zk) \<le> pending zk"
  by (simp add: assign_daughter_def pending_set_depth_le split: option.splits)

lemma update_depths_returns:
  "pending zk < n \<Longrightarrow> \<exists>zk'. update_depths n zk m d = Some zk' \<and> pending zk' \<le> pending zk"
  "pending zk < n \<Longrightarrow> \<exists>zk'. update_depths_loop n zk ls d = Some zk' \<and> pending zk' \<le> pending zk"
proof (induction n zk m d and n zk ls d rule: update_depths_update_depths_loop.induct)
  case (1 zk mother mother_depth)
  then show ?case by simp
next
  case (2 n zk mother mother_depth)
  show ?case
  proof (cases "map_of (zid2zettel zk) mother")
    case None
    then show ?thesis by simp
  next
    case (Some m)
    show ?thesis
    proof (cases "depth m")
      case None
      from pending_set_depth_less [OF Some None, of mother_depth] "2.prems"
      have less: "pending (set_depth mother mother_depth zk) < n"
        and le: "pending (set_depth mother mother_depth zk) \<le> pending zk" by simp_all
      from "2.IH" [OF Some None less] obtain zk' where
        "update_depths_loop n (set_depth mother mother_depth zk) (links m) mother_depth = Some zk'"
        "pending zk' \<le> pending (set_depth mother mother_depth zk)" by blast
      with le Some None show ?thesis by simp
    next
      case (Some d)
      with \<open>map_of (zid2zettel zk) mother = Some m\<close> show ?thesis by simp
    qed
  qed
next
  case (3 n zk mother_depth)
  then show ?case by simp
next
  case (4 n zk daughter ds mother_depth)
  from "4.IH"(1) [OF "4.prems"] obtain zk1 where
    u: "update_depths n zk daughter (mother_depth + 1) = Some zk1" and
    le1: "pending zk1 \<le> pending zk" by blast
  let ?zk2 = "assign_daughter daughter (mother_depth + 1) zk1"
  have le2: "pending ?zk2 \<le> pending zk1" by (rule pending_assign_daughter_le)
  with le1 "4.prems" have "pending ?zk2 < n" by simp
  from "4.IH"(2) [OF u this] obtain zk' where
    "update_depths_loop n ?zk2 ds mother_depth = Some zk'" "pending zk' \<le> pending ?zk2" by blast
  with u le1 le2 show ?case by simp
qed

lemma length_map_entry [simp]: "length (AList.map_entry k f al) = length al"
  by (induction al) auto

lemma update_backlinks_length:
  "length (zid2zettel (update_backlinks zk)) = length (zid2zettel zk)"
proof -
  have a: "length (zid2zettel (add_backlink s l k)) = length (zid2zettel k)" for s l k
    by (simp add: add_backlink_def logger_error_def split: option.splits)
  have b: "length (zid2zettel (fold (add_backlink s) ls k)) = length (zid2zettel k)" for s ls k
    by (induction ls arbitrary: k) (simp_all add: a)
  have c: "length (zid2zettel (add_backlinks zs k)) = length (zid2zettel k)" for zs k
    by (induction zs arbitrary: k) (simp_all add: add_backlinks_def b)
  show ?thesis
    by (simp add: update_backlinks_def Let_def c reset_backlinks_def)
qed

lemma finalize_returns:
  assumes "length (zid2zettel zk) < n"
  shows "\<exists>zk'. finalize n zk = Some zk'"
proof -
  have "pending (update_backlinks zk) \<le> length (zid2zettel (update_backlinks zk))"
    by (simp add: pending_def zettels_def)
  with assms have "pending (update_backlinks zk) < n"
    by (simp add: update_backlinks_length)
  from update_depths_returns(1) [OF this, of root_zid 0] show ?thesis
    by (auto simp: finalize_def)
qed

lemma depth_frame_keys: "depth_frame a b \<Longrightarrow> map fst (zid2zettel b) = map fst (zid2zettel a)"
  unfolding depth_frame_def
  by (induction rule: list_all2_induct) (auto simp: same_but_depth_def)


lemma depth_frame_lookup:
  "depth_frame a b \<Longrightarrow>
   rel_option (\<lambda>z z'. z'\<lparr>depth := None\<rparr> = z\<lparr>depth := None\<rparr> \<and> (depth z \<noteq> None \<longrightarrow> depth z' \<noteq> None))
     (lookup a k) (lookup b k)"
  unfolding depth_frame_def lookup_def
  by (induction rule: list_all2_induct) (auto simp: same_but_depth_def split: prod.splits)

lemma depth_frame_lookup_Some:
  assumes "depth_frame a b" "lookup b k = Some z'"
  shows "\<exists>z. lookup a k = Some z \<and> z'\<lparr>depth := None\<rparr> = z\<lparr>depth := None\<rparr> \<and>
           (depth z \<noteq> None \<longrightarrow> depth z' \<noteq> None)"
  using depth_frame_lookup [OF assms(1), of k] assms(2)
  by (cases "lookup a k") auto

lemma depth_frame_lookup_Some':
  assumes "depth_frame a b" "lookup a k = Some z"
  shows "\<exists>z'. lookup b k = Some z' \<and> z'\<lparr>depth := None\<rparr> = z\<lparr>depth := None\<rparr> \<and>
           (depth z \<noteq> None \<longrightarrow> depth z' \<noteq> None)"
  using depth_frame_lookup [OF assms(1), of k] assms(2)
  by (cases "lookup b k") auto

lemma erase_eq_fields:
  "z'\<lparr>depth := None\<rparr> = z\<lparr>depth := None\<rparr> \<Longrightarrow>
   zid z' = zid z \<and> links z' = links z \<and> backlinks z' = backlinks z \<and>
   title z' = title z \<and> tags z' = tags z \<and> path z' = path z"
  by (cases z, cases z') simp




lemma update_backlinks_lookup:
  assumes "distinct (map fst (zid2zettel zk))"
  shows "lookup (update_backlinks zk) k =
     map_option (\<lambda>z. z\<lparr>backlinks := linking_zids (zid2zettel zk) k\<rparr>) (lookup zk k)"
proof -
  have "map_of (map (\<lambda>(k, z). (k, z\<lparr>backlinks := f k\<rparr>)) al) k
      = map_option (\<lambda>z. z\<lparr>backlinks := f k\<rparr>) (map_of al k)" for al f
    by (induction al) auto
  then show ?thesis
    by (simp add: lookup_def update_backlinks_zid2zettel [OF assms])
qed

lemma finalize_SomeD:
  assumes "finalize n zk = Some zk'"
  shows "\<exists>zk1. update_depths n (update_backlinks zk) root_zid 0 = Some zk1 \<and>
           zk' = zk1\<lparr>finalized := True\<rparr> \<and> depth_frame (update_backlinks zk) zk1"
  using assms update_depths_frame(1)
  by (auto simp: finalize_def split: option.splits)

lemma finalize_lookup:
  assumes wf: "distinct (map fst (zid2zettel zk))" and fin: "finalize n zk = Some zk'"
    and z': "lookup zk' k = Some z'"
  shows "\<exists>z. lookup zk k = Some z \<and> zid z' = zid z \<and> links z' = links z \<and>
           backlinks z' = linking_zids (zid2zettel zk) k"
proof -
  from finalize_SomeD [OF fin] obtain zk1 where
    zk1: "zk' = zk1\<lparr>finalized := True\<rparr>" and fr: "depth_frame (update_backlinks zk) zk1"
    by blast
  from z' zk1 have "lookup zk1 k = Some z'" by (simp add: lookup_def)
  from depth_frame_lookup_Some [OF fr this] obtain zb where
    zb: "lookup (update_backlinks zk) k = Some zb" and e: "z'\<lparr>depth := None\<rparr> = zb\<lparr>depth := None\<rparr>"
    by blast
  from zb obtain z where z: "lookup zk k = Some z"
    and zb_eq: "zb = z\<lparr>backlinks := linking_zids (zid2zettel zk) k\<rparr>"
    by (auto simp: update_backlinks_lookup [OF wf])
  from erase_eq_fields [OF e] zb_eq z show ?thesis by simp
qed

lemma finalize_lookup_None:
  assumes fin: "finalize n zk = Some zk'"
  shows "lookup zk' k = None \<longleftrightarrow> lookup zk k = None"
proof -
  from finalize_SomeD [OF fin] obtain zk1 where
    zk1: "zk' = zk1\<lparr>finalized := True\<rparr>" and fr: "depth_frame (update_backlinks zk) zk1"
    by blast
  have "map fst (zid2zettel zk') = map fst (zid2zettel (update_backlinks zk))"
    using depth_frame_keys [OF fr] zk1 by simp
  then have "lookup zk' k = None \<longleftrightarrow> lookup (update_backlinks zk) k = None"
    by (metis lookup_def map_of_eq_None_iff set_map)
  also have "\<dots> \<longleftrightarrow> lookup zk k = None"
    by (simp add: lookup_def update_backlinks_def Let_def add_backlinks_lookup_None
        reset_backlinks_lookup_None)
  finally show ?thesis .
qed

lemma wf_lookup_zid: "wf_zk zk \<Longrightarrow> lookup zk k = Some z \<Longrightarrow> zid z = k"
  by (auto simp: wf_zk_def lookup_def list_all_iff dest!: map_of_SomeD)

lemma wf_linking_zids:
  assumes "wf_zk zk"
  shows "s \<in> linking_zids (zid2zettel zk) k \<longleftrightarrow> (\<exists>a. lookup zk s = Some a \<and> k \<in> set (links a))"
proof
  assume "s \<in> linking_zids (zid2zettel zk) k"
  then obtain k' a where "(k', a) \<in> set (zid2zettel zk)" "zid a = s" "k \<in> set (links a)"
    by (auto simp: linking_zids_def)
  moreover from this assms have "k' = s" by (auto simp: wf_zk_def list_all_iff)
  ultimately show "\<exists>a. lookup zk s = Some a \<and> k \<in> set (links a)"
    using assms by (auto simp: wf_zk_def lookup_def)
next
  assume "\<exists>a. lookup zk s = Some a \<and> k \<in> set (links a)"
  then obtain a where a: "lookup zk s = Some a" "k \<in> set (links a)" by blast
  from a(1) have "(s, a) \<in> set (zid2zettel zk)" by (simp add: lookup_def map_of_SomeD)
  moreover from wf_lookup_zid [OF assms a(1)] have "zid a = s" .
  ultimately show "s \<in> linking_zids (zid2zettel zk) k"
    using a(2) by (force simp: linking_zids_def)
qed

section \<open>The example collections, evaluated\<close>

lemmas zk_defs = finalize_def Zettelkasten_init_def add_zettels_def update_backlinks_def
     reset_backlinks_def zettels_def add_backlinks_def add_backlink_def root_zid_def set_depth_def
     assign_daughter_def logger_error_def could_not_find_def

lemma cycle_example_eq:
  "cycle_example = \<lparr>zid2zettel = [(''00000000000000'', ex_root), (''20230101000001'', ex_note)],
      finalized = False, errors = []\<rparr>"
  by (simp add: cycle_example_def Zettelkasten_init_def add_zettels_def ex_root_def ex_note_def)

lemma finalize_cycle_example: "finalize 3 cycle_example = Some cycle_example_final"
  by (simp add: cycle_example_eq cycle_example_final_def zk_defs ex_root_def ex_note_def numeral_3_eq_3)

lemma wf_cycle_example: "wf_zk cycle_example"
  by (simp add: cycle_example_eq wf_zk_def ex_root_def ex_note_def)

section \<open>Backlinks after \<open>finalize\<close>\<close>




section \<open>Depths: what the traversal reaches\<close>

lemma depth_frame_adj: "depth_frame a b \<Longrightarrow> adj b x = adj a x"
  using depth_frame_lookup [of a b x]
  by (cases "lookup a x"; cases "lookup b x") (auto simp: adj_def dest: erase_eq_fields)

lemma depth_frame_mono: "depth_frame a b \<Longrightarrow> depth_of a x \<noteq> None \<Longrightarrow> depth_of b x \<noteq> None"
  using depth_frame_lookup [of a b x]
  by (cases "lookup a x"; cases "lookup b x") (auto simp: depth_of_def)

lemma depth_of_set_depth:
  "depth_of (set_depth k v zk) x = (if x = k \<and> lookup zk k \<noteq> None then Some v else depth_of zk x)"
  by (auto simp: depth_of_def lookup_def set_depth_def map_of_map_entry split: option.splits)

lemma depth_of_logger_error [simp]: "depth_of (logger_error m zk) x = depth_of zk x"
  by (simp add: depth_of_def lookup_def logger_error_def)

lemma depth_of_assign_daughter:
  "depth_of (assign_daughter k v zk) x \<noteq> None \<Longrightarrow> x = k \<and> lookup zk k \<noteq> None \<or> depth_of zk x \<noteq> None"
  by (auto simp: assign_daughter_def depth_of_set_depth lookup_def split: option.splits if_splits)

lemma adj_ne_None: "adj zk x \<noteq> None \<longleftrightarrow> lookup zk x \<noteq> None"
  by (simp add: adj_def)

lemma update_depths_closed:
  "update_depths n zk m d = Some zk' \<Longrightarrow>
     (adj zk m \<noteq> None \<longrightarrow> depth_of zk' m \<noteq> None) \<and> closed_new zk zk'"
  "update_depths_loop n zk ls d = Some zk' \<Longrightarrow>
     (\<forall>y \<in> set ls. adj zk y \<noteq> None \<longrightarrow> depth_of zk' y \<noteq> None) \<and> closed_new zk zk'"
proof (induction n zk m d and n zk ls d arbitrary: zk' and zk'
    rule: update_depths_update_depths_loop.induct)
  case (1 zk mother mother_depth)
  then show ?case by simp
next
  case (2 n zk mother mother_depth)
  show ?case
  proof (cases "map_of (zid2zettel zk) mother")
    case None
    with "2.prems" show ?thesis
      by (auto simp: adj_def lookup_def closed_new_def)
  next
    case (Some m)
    show ?thesis
    proof (cases "depth m")
      case (Some v)
      with \<open>map_of (zid2zettel zk) mother = Some m\<close> "2.prems" show ?thesis
        by (auto simp: closed_new_def depth_of_def lookup_def)
    next
      case None
      let ?zk1 = "set_depth mother mother_depth zk"
      from Some None "2.prems" have
        l: "update_depths_loop n ?zk1 (links m) mother_depth = Some zk'" by simp
      from "2.IH" [OF Some None l] have
        b: "\<forall>y \<in> set (links m). adj ?zk1 y \<noteq> None \<longrightarrow> depth_of zk' y \<noteq> None" and
        c: "closed_new ?zk1 zk'" by simp_all
      have f1: "depth_frame zk ?zk1" by (rule set_depth_frame)
      have f2: "depth_frame ?zk1 zk'" by (rule update_depths_frame(2) [OF l])
      have a1: "adj ?zk1 x = adj zk x" for x by (rule depth_frame_adj [OF f1])
      have "depth_of ?zk1 mother \<noteq> None"
        using Some by (simp add: depth_of_set_depth lookup_def)
      then have g1: "depth_of zk' mother \<noteq> None" by (rule depth_frame_mono [OF f2])
      have "closed_new zk zk'"
        unfolding closed_new_def
      proof (intro allI impI ballI)
        fix x ls y
        assume x: "depth_of zk x = None" "depth_of zk' x \<noteq> None" "adj zk x = Some ls"
          and y: "y \<in> set ls" "adj zk y \<noteq> None"
        show "depth_of zk' y \<noteq> None"
        proof (cases "x = mother")
          case True
          with x(3) Some have "ls = links m" by (simp add: adj_def lookup_def)
          with b y a1 show ?thesis by simp
        next
          case False
          with x(1) have "depth_of ?zk1 x = None" by (simp add: depth_of_set_depth)
          with c x(2,3) y a1 show ?thesis
            unfolding closed_new_def by metis
        qed
      qed
      with g1 show ?thesis by simp
    qed
  qed
next
  case (3 n zk mother_depth)
  then show ?case by (simp add: closed_new_def)
next
  case (4 n zk daughter ds mother_depth)
  from "4.prems" obtain zk1 where
    u: "update_depths n zk daughter (mother_depth + 1) = Some zk1" and
    l: "update_depths_loop n (assign_daughter daughter (mother_depth + 1) zk1) ds mother_depth = Some zk'"
    by (auto split: option.splits)
  let ?zk2 = "assign_daughter daughter (mother_depth + 1) zk1"
  from "4.IH"(1) [OF u] have
    b1: "adj zk daughter \<noteq> None \<longrightarrow> depth_of zk1 daughter \<noteq> None" and c1: "closed_new zk zk1"
    by simp_all
  from "4.IH"(2) [OF u l] have
    b2: "\<forall>y \<in> set ds. adj ?zk2 y \<noteq> None \<longrightarrow> depth_of zk' y \<noteq> None" and c2: "closed_new ?zk2 zk'"
    by simp_all
  have f1: "depth_frame zk zk1" by (rule update_depths_frame(1) [OF u])
  have f2: "depth_frame zk1 ?zk2" by (rule assign_daughter_frame)
  have f3: "depth_frame ?zk2 zk'" by (rule update_depths_frame(2) [OF l])
  have a1: "adj zk1 x = adj zk x" for x by (rule depth_frame_adj [OF f1])
  have a2: "adj ?zk2 x = adj zk x" for x using depth_frame_adj [OF f2] a1 by simp
  have m13: "depth_of zk1 x \<noteq> None \<Longrightarrow> depth_of zk' x \<noteq> None" for x
    using depth_frame_mono [OF f2] depth_frame_mono [OF f3] by blast
  have g: "\<forall>y \<in> set (daughter # ds). adj zk y \<noteq> None \<longrightarrow> depth_of zk' y \<noteq> None"
    using b1 b2 a2 m13 by auto
  have "closed_new zk zk'"
    unfolding closed_new_def
  proof (intro allI impI ballI)
    fix x ls y
    assume x: "depth_of zk x = None" "depth_of zk' x \<noteq> None" "adj zk x = Some ls"
      and y: "y \<in> set ls" "adj zk y \<noteq> None"
    show "depth_of zk' y \<noteq> None"
    proof (cases "depth_of ?zk2 x = None")
      case True
      with c2 x(2,3) y a2 show ?thesis
        unfolding closed_new_def by metis
    next
      case False
      from depth_of_assign_daughter [OF False] b1 x(3)
      have "depth_of zk1 x \<noteq> None" by auto
      with c1 x(1,3) y have "depth_of zk1 y \<noteq> None"
        unfolding closed_new_def by metis
      then show ?thesis by (rule m13)
    qed
  qed
  with g show ?case by simp
qed

lemma dangling_example_eq:
  "dangling_example =
     \<lparr>zid2zettel = [(''00000000000000'', ex_root\<lparr>links := [''20230101000001'', ''20230101000002'']\<rparr>),
                    (''20230101000001'', ex_note)],
      finalized = False, errors = []\<rparr>"
  by (simp add: dangling_example_def Zettelkasten_init_def add_zettels_def ex_root_def ex_note_def)

lemma finalize_dangling_example: "finalize 3 dangling_example = Some dangling_example_final"
  by (simp add: dangling_example_eq dangling_example_final_def zk_defs ex_root_def ex_note_def
      numeral_3_eq_3)

lemma wf_dangling_example: "wf_zk dangling_example"
  by (simp add: dangling_example_eq wf_zk_def ex_root_def ex_note_def)

lemma late_example_eq: "late_example = Some late_example_state"
  by (simp add: late_example_def late_example_state_def zk_defs ex_root_def ex_note_def
      numeral_2_eq_2)

lemma finalize_late_example:
  "finalize (Suc n) late_example_state =
     Some (late_example_state\<lparr>zid2zettel :=
        [(''00000000000000'', ex_root\<lparr>backlinks := {''20230101000001''}, depth := Some 0\<rparr>),
         (''20230101000001'', ex_note\<lparr>backlinks := {''00000000000000''}\<rparr>)], finalized := True\<rparr>)"
  by (simp add: late_example_state_def zk_defs ex_root_def ex_note_def)


section \<open>Properties of \<open>finalize\<close>\<close>

lemma wf_distinct: "wf_zk zk \<Longrightarrow> distinct (map fst (zid2zettel zk))"
  by (simp add: wf_zk_def)

lemma finalize_Suc_length: "\<exists>zk'. finalize (Suc (length (zid2zettel zk))) zk = Some zk'"
  by (rule finalize_returns) simp

text \<open>
  C1, at the claim's own example. The root is given depth 0 and its link target depth 1;
  the traversal of the target's links comes back to the root, does not enter it, and the
  assignment after the call overwrites the root's depth with 2. (A bound of 3 nested calls is
  what this collection needs.)
\<close>

theorem cycle_example_depths:
  "finalize 3 cycle_example = Some cycle_example_final \<and>
   depth_of cycle_example_final ''00000000000000'' = Some 2 \<and>
   depth_of cycle_example_final ''20230101000001'' = Some 1"
  by (simp add: finalize_cycle_example)
     (simp add: depth_of_def lookup_def cycle_example_final_def)



text \<open>
  Dangling links, for notes whose attributes exist.
  When a registered note \<open>a\<close> links to an id \<open>u\<close> that is not registered, \<open>finalize\<close> still
  returns; in its result the registered notes are the same, \<open>u\<close> is in nobody's backlinks
  and every note has exactly the backlinks its registered linkers give it. The diagnostics
  that \<open>_update_backlinks\<close> emits are one message per dangling link occurrence, in order, so
  the messages naming \<open>u\<close> are as many as the occurrences of \<open>u\<close> in the links.
\<close>

theorem dangling_link_skipped:
  assumes "wf_zk zk" and "lookup zk ka = Some a" and "u \<in> set (links a)" and "lookup zk u = None"
  shows "(\<exists>zk'. finalize (Suc (length (zid2zettel zk))) zk = Some zk') \<and>
     (\<forall>n zk' k. finalize n zk = Some zk' \<longrightarrow>
        (lookup zk' k = None \<longleftrightarrow> lookup zk k = None) \<and>
        (\<forall>z. lookup zk' k = Some z \<longrightarrow>
           u \<notin> backlinks z \<and> backlinks z = linking_zids (zid2zettel zk) k)) \<and>
     errors (update_backlinks zk) = errors zk @ map could_not_find (dangling_links zk) \<and>
     count_list (map could_not_find (dangling_links zk)) (could_not_find u) =
       count_list (concat (map links (zettels zk))) u \<and>
     0 < count_list (concat (map links (zettels zk))) u"
proof (intro conjI allI impI)
  show "\<exists>zk'. finalize (Suc (length (zid2zettel zk))) zk = Some zk'"
    by (rule finalize_Suc_length)
next
  fix n zk' k
  assume fin: "finalize n zk = Some zk'"
  show "lookup zk' k = None \<longleftrightarrow> lookup zk k = None"
    by (rule finalize_lookup_None [OF fin])
  fix z
  assume z: "lookup zk' k = Some z"
  from finalize_lookup [OF wf_distinct [OF assms(1)] fin z]
  show bl: "backlinks z = linking_zids (zid2zettel zk) k" by auto
  show "u \<notin> backlinks z"
    using assms(4) by (simp add: bl wf_linking_zids [OF assms(1)])
next
  show "errors (update_backlinks zk) = errors zk @ map could_not_find (dangling_links zk)"
    by (rule update_backlinks_errors)
next
  have inj: "count_list (map could_not_find xs) (could_not_find u) = count_list xs u" for xs
    by (induction xs) (auto simp: could_not_find_def)
  have "count_list (filter (\<lambda>l. lookup zk l = None) xs) u = count_list xs u" for xs
    using assms(4) by (induction xs) auto
  then show "count_list (map could_not_find (dangling_links zk)) (could_not_find u) =
       count_list (concat (map links (zettels zk))) u"
    by (simp add: inj dangling_links_def)
next
  from assms(2) have "a \<in> set (zettels zk)"
    by (force simp: lookup_def zettels_def dest: map_of_SomeD)
  with assms(3) have "u \<in> set (concat (map links (zettels zk)))" by auto
  then have "count_list (concat (map links (zettels zk))) u \<noteq> 0"
    unfolding count_list_0_iff by simp
  then show "0 < count_list (concat (map links (zettels zk))) u"
    by simp
qed

theorem dangling_link_skipped_witness:
  "wf_zk dangling_example \<and>
   lookup dangling_example ''00000000000000'' =
     Some (ex_root\<lparr>links := [''20230101000001'', ''20230101000002'']\<rparr>) \<and>
   ''20230101000002'' \<in> set (links (ex_root\<lparr>links := [''20230101000001'', ''20230101000002'']\<rparr>)) \<and>
   lookup dangling_example ''20230101000002'' = None \<and>
   finalize 3 dangling_example = Some dangling_example_final \<and>
   errors (update_backlinks dangling_example) =
     errors dangling_example @ map could_not_find (dangling_links dangling_example) \<and>
   dangling_links dangling_example = [''20230101000002'']"
proof -
  have l: "lookup dangling_example ''00000000000000'' =
     Some (ex_root\<lparr>links := [''20230101000001'', ''20230101000002'']\<rparr>)"
    by (simp add: lookup_def dangling_example_eq)
  have m: "''20230101000002'' \<in> set (links (ex_root\<lparr>links := [''20230101000001'', ''20230101000002'']\<rparr>))"
    by simp
  have u: "lookup dangling_example ''20230101000002'' = None"
    by (simp add: lookup_def dangling_example_eq)
  have d: "dangling_links dangling_example = [''20230101000002'']"
    by (simp add: dangling_links_def zettels_def lookup_def dangling_example_eq ex_root_def ex_note_def)
  from dangling_link_skipped [OF wf_dangling_example l m u]
  have "errors (update_backlinks dangling_example) =
     errors dangling_example @ map could_not_find (dangling_links dangling_example)"
    by blast
  with wf_dangling_example l m u finalize_dangling_example d show ?thesis
    by blast
qed










lemma update_backlinks_depth_of:
  assumes "distinct (map fst (zid2zettel zk))"
  shows "depth_of (update_backlinks zk) k = depth_of zk k"
  by (cases "lookup zk k") (simp_all add: depth_of_def update_backlinks_lookup [OF assms])

lemma update_backlinks_adj:
  assumes "distinct (map fst (zid2zettel zk))"
  shows "adj (update_backlinks zk) k = adj zk k"
  by (cases "lookup zk k") (simp_all add: adj_def update_backlinks_lookup [OF assms])

lemma no_depth_depth_of:
  assumes "list_all (\<lambda>z. depth z = None) (zettels zk)"
  shows "depth_of zk k = None"
proof (cases "lookup zk k")
  case None
  then show ?thesis by (simp add: depth_of_def)
next
  case (Some z)
  then have "z \<in> set (zettels zk)"
    by (force simp: lookup_def zettels_def dest: map_of_SomeD)
  with assms Some show ?thesis by (simp add: depth_of_def list_all_iff)
qed

lemma reachable_gets_depth:
  assumes d: "distinct (map fst (zid2zettel zk))"
    and fresh: "list_all (\<lambda>z. depth z = None) (zettels zk)"
    and fin: "finalize n zk = Some zk'"
    and r: "reachable zk k"
  shows "depth_of zk' k \<noteq> None"
proof -
  let ?ub = "update_backlinks zk"
  from finalize_SomeD [OF fin] obtain zk1 where
    zk1: "zk' = zk1\<lparr>finalized := True\<rparr>" and
    u: "update_depths n ?ub root_zid 0 = Some zk1" by blast
  have same: "depth_of zk' x = depth_of zk1 x" for x
    using zk1 by (simp add: depth_of_def lookup_def)
  from update_depths_closed(1) [OF u] have
    b: "adj ?ub root_zid \<noteq> None \<longrightarrow> depth_of zk1 root_zid \<noteq> None" and c: "closed_new ?ub zk1"
    by simp_all
  have none: "depth_of ?ub x = None" for x
    by (simp add: update_backlinks_depth_of [OF d] no_depth_depth_of [OF fresh])
  from r have "depth_of zk1 k \<noteq> None"
  proof (induction rule: reachable.induct)
    case (root z)
    then have "adj zk root_zid \<noteq> None" by (simp add: adj_def)
    then have "adj ?ub root_zid \<noteq> None"
      by (simp add: update_backlinks_adj [OF d])
    with b show ?case by blast
  next
    case (step k z k' z')
    have "adj zk k = Some (links z)" "adj zk k' \<noteq> None"
      using step.hyps by (simp_all add: adj_def)
    then have "adj ?ub k = Some (links z)" "adj ?ub k' \<noteq> None"
      by (simp_all add: update_backlinks_adj [OF d])
    with c none [of k] step.IH step.hyps(3) show ?case
      unfolding closed_new_def by blast
  qed
  then show ?thesis by (simp add: same)
qed

text \<open>
  Cycle safety, for notes whose depth attribute exists and is \<open>None\<close>.
  In a well-formed collection in which no note holds a depth yet,
  \<open>finalize\<close> returns (a call depth of one more than the number of notes is enough, whatever
  cycles the links form), and in its result every note reachable from the root holds
  a depth.
\<close>

theorem finalize_cycle_safe:
  assumes "wf_zk zk" and "list_all (\<lambda>z. depth z = None) (zettels zk)"
  shows "(\<exists>zk'. finalize (Suc (length (zid2zettel zk))) zk = Some zk') \<and>
     (\<forall>n zk' k. finalize n zk = Some zk' \<longrightarrow> reachable zk k \<longrightarrow>
        (\<exists>!d. depth_of zk' k = Some d))"
proof (intro conjI allI impI)
  show "\<exists>zk'. finalize (Suc (length (zid2zettel zk))) zk = Some zk'"
    by (rule finalize_Suc_length)
next
  fix n zk' k
  assume "finalize n zk = Some zk'" "reachable zk k"
  from reachable_gets_depth [OF wf_distinct [OF assms(1)] assms(2) this]
  show "\<exists>!d. depth_of zk' k = Some d"
    by auto
qed

lemma reachable_cycle_example: "reachable cycle_example ''20230101000001''"
proof -
  have r: "lookup cycle_example root_zid = Some ex_root"
    by (simp add: lookup_def cycle_example_eq root_zid_def)
  have n: "lookup cycle_example ''20230101000001'' = Some ex_note"
    by (simp add: lookup_def cycle_example_eq)
  have "''20230101000001'' \<in> set (links ex_root)" by (simp add: ex_root_def)
  from reachable.step [OF reachable.root [OF r] r this n] show ?thesis .
qed

theorem finalize_cycle_safe_witness:
  "wf_zk cycle_example \<and> list_all (\<lambda>z. depth z = None) (zettels cycle_example) \<and>
   finalize 3 cycle_example = Some cycle_example_final \<and>
   reachable cycle_example ''20230101000001'' \<and>
   depth_of cycle_example_final ''20230101000001'' = Some 1"
proof -
  have fresh: "list_all (\<lambda>z. depth z = None) (zettels cycle_example)"
    by (simp add: zettels_def cycle_example_eq ex_root_def ex_note_def)
  from finalize_cycle_safe [OF wf_cycle_example fresh, THEN conjunct2, rule_format,
      OF finalize_cycle_example reachable_cycle_example]
  obtain d where "depth_of cycle_example_final ''20230101000001'' = Some d"
    by blast
  moreover have "depth_of cycle_example_final ''20230101000001'' = Some 1"
    by (simp add: depth_of_def lookup_def cycle_example_final_def)
  ultimately show ?thesis
    using wf_cycle_example fresh finalize_cycle_example reachable_cycle_example by blast
qed

text \<open>
  Depths are never reset: in a collection that was finalized before its second note was
  registered, the root keeps the depth of the first pass, so the second pass returns at
  once and the new note, which lies on a cycle through the root, is left without a depth.
\<close>

theorem finalize_stale_depth:
  "late_example = Some late_example_state \<and> wf_zk late_example_state \<and>
   lookup late_example_state ''00000000000000'' = Some (ex_root\<lparr>depth := Some 0\<rparr>) \<and>
   ''20230101000001'' \<in> set (links (ex_root\<lparr>depth := Some 0\<rparr>)) \<and>
   lookup late_example_state ''20230101000001'' = Some ex_note \<and>
   ''00000000000000'' \<in> set (links ex_note) \<and>
   reachable late_example_state ''20230101000001'' \<and>
   finalize 3 late_example_state = Some late_example_final \<and>
   depth_of late_example_final ''20230101000001'' = None"
proof -
  have r: "lookup late_example_state root_zid = Some (ex_root\<lparr>depth := Some 0\<rparr>)"
    by (simp add: lookup_def late_example_state_def root_zid_def)
  have n: "lookup late_example_state ''20230101000001'' = Some ex_note"
    by (simp add: lookup_def late_example_state_def)
  have m: "''20230101000001'' \<in> set (links (ex_root\<lparr>depth := Some 0\<rparr>))"
    by (simp add: ex_root_def)
  have "reachable late_example_state ''20230101000001''"
    by (rule reachable.step [OF reachable.root [OF r] r m n])
  moreover have "wf_zk late_example_state"
    by (simp add: wf_zk_def late_example_state_def ex_root_def ex_note_def)
  moreover have "finalize 3 late_example_state = Some late_example_final"
    using finalize_late_example [of 2] by (simp add: late_example_final_def numeral_3_eq_3)
  moreover have "depth_of late_example_final ''20230101000001'' = None"
    by (simp add: depth_of_def lookup_def late_example_final_def ex_note_def)
  moreover have "''00000000000000'' \<in> set (links ex_note)" by (simp add: ex_note_def)
  ultimately show ?thesis
    using late_example_eq r n m by (simp add: root_zid_def)
qed

section \<open>The constructor of a note: title and tags\<close>

lemma split_from_not_Nil: "split_from sep acc s \<noteq> []"
  by (induction sep acc s rule: split_from.induct) auto

lemma str_split_heading:
  assumes "startswith line ''# ''"
  shows "\<exists>t rest. str_split line ''# '' = [] # t # rest"
proof -
  from assms obtain cs where line: "line = CHR ''#'' # CHR '' '' # cs"
    by (cases line; cases "tl line") (auto simp: startswith_def)
  obtain t rest where "split_from ''# '' [] cs = t # rest"
    using split_from_not_Nil [of "''# ''" "[]" cs] by (cases "split_from ''# '' [] cs") auto
  with line show ?thesis by (simp add: str_split_def startswith_def)
qed

lemma analyze_line_title:
  "\<exists>z'. analyze_line line z = Inr z' \<and>
     title z' = (if is_heading line then heading_text line else title z)"
proof (cases "startswith line ''# ''")
  case True
  from str_split_heading [OF True] obtain t rest where
    "str_split line ''# '' = [] # t # rest" by blast
  with True show ?thesis
    by (simp add: analyze_line_def index_def heading_text_def is_heading_def Let_def)
next
  case False
  then show ?thesis by (simp add: analyze_line_def is_heading_def Let_def)
qed

lemma analyze_lines_title:
  "\<exists>z'. analyze_lines ls z = Inr z' \<and>
     title z' = (case filter is_heading ls of [] \<Rightarrow> title z | h # hs \<Rightarrow> heading_text (last (h # hs)))"
proof (induction ls arbitrary: z)
  case Nil
  then show ?case by simp
next
  case (Cons l ls)
  from analyze_line_title [of l z] obtain z1 where
    z1: "analyze_line l z = Inr z1"
      "title z1 = (if is_heading l then heading_text l else title z)" by blast
  from Cons.IH [of z1] obtain z' where
    z': "analyze_lines ls z1 = Inr z'"
      "title z' = (case filter is_heading ls of [] \<Rightarrow> title z1 | h # hs \<Rightarrow> heading_text (last (h # hs)))"
    by blast
  from z1 z' show ?case
    by (auto split: list.splits)
qed

text \<open>
  C6, as amended. Constructing a note never raises on the content, and the title is the
  heading text of the last line of the content that starts with \<open># \<close>; it is the empty
  string when there is no such line.
\<close>

theorem title_is_last_heading:
  "\<exists>z. Zettel_init p content = Inr z \<and>
     title z = (case filter is_heading (readlines content) of
                  [] \<Rightarrow> ''''
                | h # hs \<Rightarrow> heading_text (last (h # hs)))"
  using analyze_lines_title [of "readlines content"
      "\<lparr>path = p, zid = get_zid p, links = [], title = '''', tags = {}, backlinks_attr = None,
        depth_attr = None\<rparr>"]
  by (auto simp: Zettel_init_def analyze_file_def split: list.splits)

text \<open>
  C6 as stated fails for a content with two heading lines: the title is taken from the
  second, while the first line that starts with \<open># \<close> is \<open># A\<close>.
\<close>

theorem title_first_heading_counterexample:
  "Zettel_init ''n.md'' ''# A\<newline># B\<newline>'' =
     Inr \<lparr>path = ''n.md'', zid = ''n.md'', links = [], title = ''B'', tags = {},
          backlinks_attr = None, depth_attr = None\<rparr> \<and>
   find is_heading (readlines ''# A\<newline># B\<newline>'') = Some ''# A\<newline>'' \<and>
   heading_text ''# A\<newline>'' = ''A''"
  by (simp add: Zettel_init_def analyze_file_def readlines_def analyze_line_def startswith_def
      str_split_def index_def strip_def is_space_def lower_def lower_char_def get_zid_def
      path_name_def is_heading_def heading_text_def id_findall.simps)

lemma tag_findall_skip: "CHR ''#'' \<notin> set s \<Longrightarrow> tag_findall (s @ r) = tag_findall r"
  by (induction s) auto

lemma tag_findall_one:
  assumes "\<forall>c \<in> set t. \<not> is_space c" and "r = [] \<or> is_space (hd r)"
  shows "tag_findall (CHR ''#'' # t @ r) = (CHR ''#'' # t) # tag_findall r"
proof -
  have "takeWhile (\<lambda>x. \<not> is_space x) (t @ r) = t"
    using assms by (cases r) (auto simp: takeWhile_append2 takeWhile_eq_all_conv)
  moreover have "dropWhile (\<lambda>x. \<not> is_space x) (t @ r) = r"
    using assms by (cases r) (auto simp: dropWhile_append2 dropWhile_eq_Nil_conv)
  ultimately show ?thesis by simp
qed

lemma tag_findall_space: "is_space c \<Longrightarrow> tag_findall (c # r) = tag_findall r"
  by (auto simp: is_space_def)

lemma tag_findall_joined:
  assumes "\<forall>t \<in> set ts. \<forall>c \<in> set t. \<not> is_space c"
  shows "tag_findall (join '' '' (map (\<lambda>tag. ''#'' @ tag) ts) @ ''\<newline>'') =
           map (\<lambda>tag. ''#'' @ tag) ts"
  using assms
proof (induction ts)
  case Nil
  then show ?case by simp
next
  case (Cons t ts)
  have nl: "is_space CHR ''\<newline>''" and sp: "is_space CHR '' ''" by (simp_all add: is_space_def)
  show ?case
  proof (cases ts)
    case Nil
    with Cons.prems nl show ?thesis
      by (simp add: tag_findall_one)
  next
    case (Cons u us)
    let ?rest = "join '' '' (map (\<lambda>tag. ''#'' @ tag) ts) @ ''\<newline>''"
    have "tag_findall (CHR ''#'' # t @ (CHR '' '' # ?rest)) = (CHR ''#'' # t) # tag_findall (CHR '' '' # ?rest)"
      using Cons.prems sp by (intro tag_findall_one) auto
    also have "tag_findall (CHR '' '' # ?rest) = tag_findall ?rest"
      by (rule tag_findall_space [OF sp])
    also have "tag_findall ?rest = map (\<lambda>tag. ''#'' @ tag) ts"
      using Cons.IH Cons.prems by simp
    finally show ?thesis using Cons by simp
  qed
qed

lemma read_tags_format_tags:
  assumes "\<forall>t \<in> set ts. \<forall>c \<in> set t. \<not> is_space c"
  shows "read_tags (format_tags ts) = set ts"
proof -
  have "\<forall>t \<in> set (sort ts). \<forall>c \<in> set t. \<not> is_space c" using assms by simp
  from tag_findall_joined [OF this]
  have "tag_findall (format_tags ts) = map (\<lambda>tag. ''#'' @ tag) (sort ts)"
    by (simp add: format_tags_def)
  then show ?thesis by (simp add: read_tags_def comp_def)
qed

lemma format_tags_is_tag_line:
  "substring_in ''tags: '' (lower (format_tags ts)) \<and> \<not> startswith (format_tags ts) ''# ''"
  by (simp add: format_tags_def lower_def lower_char_def startswith_def)

text \<open>
  C8, as amended. For tags that contain no white space, the tag line that \<open>_format_tags\<close>
  writes is read back by the note's tag parser as the same set of tags; the tags
  \<open>b\<close>, \<open>a\<close> are written as the line \<open>Tags: #a #b\<close>, with its line terminator.
\<close>

theorem tags_round_trip:
  assumes "\<forall>t \<in> set ts. \<forall>c \<in> set t. \<not> is_space c"
  shows "read_tags (format_tags ts) = set ts \<and>
     (\<exists>z'. analyze_line (format_tags ts) z = Inr z' \<and> tags z' = set ts) \<and>
     format_tags [''b'', ''a''] = ''Tags: #a #b\<newline>''"
proof (intro conjI)
  show rt: "read_tags (format_tags ts) = set ts"
    by (rule read_tags_format_tags [OF assms])
  show "\<exists>z'. analyze_line (format_tags ts) z = Inr z' \<and> tags z' = set ts"
    using format_tags_is_tag_line [of ts] rt by (simp add: analyze_line_def Let_def)
  show "format_tags [''b'', ''a''] = ''Tags: #a #b\<newline>''"
    by (simp add: format_tags_def)
qed

theorem tags_round_trip_witness:
  "list_all (\<lambda>t. list_all (\<lambda>c. \<not> is_space c) t) [''b'', ''a''] \<and>
   read_tags (format_tags [''b'', ''a'']) = {''b'', ''a''}"
proof -
  have h: "\<forall>t \<in> set [''b'', ''a'']. \<forall>c \<in> set t. \<not> is_space c"
    by (simp add: is_space_def)
  have l: "list_all (\<lambda>t. list_all (\<lambda>c. \<not> is_space c) t) [''b'', ''a'']"
    by (simp add: is_space_def)
  from tags_round_trip [OF h, THEN conjunct1]
  have "read_tags (format_tags [''b'', ''a'']) = {''b'', ''a''}"
    by simp
  with l show ?thesis by (rule conjI)
qed

text \<open>
  C8 as stated fails for a tag with a space in it: the parser ends the tag at the space.
\<close>

theorem tags_round_trip_counterexample:
  "format_tags [''a b''] = ''Tags: #a b\<newline>'' \<and>
   read_tags (format_tags [''a b'']) = {''a''} \<and>
   read_tags (format_tags [''a b'']) \<noteq> set [''a b'']"
  by (simp add: format_tags_def read_tags_def is_space_def)

section \<open>The rewrite pipeline\<close>

lemma autogen_match_no_bracket: "CHR ''['' \<notin> set s \<Longrightarrow> autogen_match s = None"
  by (cases s; cases "tl s") (auto simp: autogen_match_def startswith_def)

lemma autogen_link_sub_no_bracket: "CHR ''['' \<notin> set s \<Longrightarrow> autogen_link_sub s = s"
  by (induction s) (simp_all add: autogen_match_no_bracket)

lemma id_link_findall_no_bracket: "CHR ''['' \<notin> set s \<Longrightarrow> id_link_findall s = []"
proof (induction s)
  case Nil
  then show ?case by (simp add: id_link_findall.simps)
next
  case (Cons c cs)
  then have c: "c \<noteq> CHR ''[''" and cs: "id_link_findall cs = []" by auto
  have "id_link_findall (c # cs) = (if length (c # cs) < 18 then [] else id_link_findall cs)"
    using c by (subst id_link_findall.simps) simp
  with cs show ?case by simp
qed

lemma set_text_lines:
  "i < length (lines st) \<Longrightarrow> lines (set_text i txt st) ! i = (lines st ! i)\<lparr>md_text := txt\<rparr>"
  "j \<noteq> i \<Longrightarrow> lines (set_text i txt st) ! j = lines st ! j"
  "length (lines (set_text i txt st)) = length (lines st)"
  "out_lines (set_text i txt st) = out_lines st"
  by (simp_all add: set_text_def)

lemma set_text_same:
  "i < length (lines st) \<Longrightarrow> md_text (lines st ! i) = txt \<Longrightarrow> set_text i txt st = st"
  by (simp add: set_text_def list_update_same_conv)

lemma change_headers_fires:
  assumes "1 < i" and "i < length (lines st)" and "\<not> is_code_block (lines st ! i)"
    and "strip (md_text (lines st ! (i - 1))) \<noteq> []"
    and "underline = ''==='' \<and> prefix = ''# '' \<or> underline = ''---'' \<and> prefix = ''## ''"
    and "startswith (md_text (lines st ! i)) underline"
  shows "change_headers i st =
     set_text i (prefix @ md_text (lines st ! (i - 1))) (st\<lparr>out_lines := butlast (out_lines st)\<rparr>)"
  using assms(5)
proof
  assume u: "underline = ''==='' \<and> prefix = ''# ''"
  let ?st1 = "set_text i (''# '' @ md_text (lines st ! (i - 1))) (st\<lparr>out_lines := butlast (out_lines st)\<rparr>)"
  have 1: "change_header ''==='' ''# '' i st = ?st1"
    using assms(1-4,6) u by (simp add: change_header_def)
  have "md_text (lines ?st1 ! i) = ''# '' @ md_text (lines st ! (i - 1))"
    using assms(2) by (simp add: set_text_def)
  then have "\<not> startswith (md_text (lines ?st1 ! i)) ''---''"
    by (simp add: startswith_def)
  then have "change_header ''---'' ''## '' i ?st1 = ?st1"
    by (simp add: change_header_def)
  with 1 u show ?thesis by (simp add: change_headers_def)
next
  assume u: "underline = ''---'' \<and> prefix = ''## ''"
  from assms(6) u have "\<not> startswith (md_text (lines st ! i)) ''===''"
    by (auto simp: startswith_def)
  then have "change_header ''==='' ''# '' i st = st"
    by (simp add: change_header_def)
  with assms(1-4,6) u show ?thesis
    by (simp add: change_headers_def change_header_def)
qed

lemma after_headers_plain:
  assumes "i < length (lines st)" and "md_text (lines st ! i) = txt"
    and "CHR ''['' \<notin> set txt" and "\<not> substring_in ''tags: '' (lower txt)"
    and "tag_transformer t {} = {}"
    and "\<not> (length (current_section (lines st ! i)) = 2 \<and>
             lower (last (current_section (lines st ! i))) = ''backlinks'')"
    and "\<not> is_last_line (lines st ! i)"
  shows "after_headers t note i st = Inr (st\<lparr>out_lines := out_lines st @ [txt]\<rparr>)"
proof -
  have ins: "insert_tags t note i st = st"
    using assms(5) by (simp add: insert_tags_def)
  have "links_and_emit t note i st = Inr (st\<lparr>out_lines := out_lines st @ [txt]\<rparr>)"
    using assms(2,6,7) set_text_same [OF assms(1,2)]
    by (simp add: links_and_emit_def Let_def autogen_link_sub_no_bracket [OF assms(3)]
        id_link_findall_no_bracket [OF assms(3)])
  with ins assms(2,4) show ?thesis
    by (simp add: after_headers_def Let_def)
qed


lemmas transform_defs = transform_def transform_line_def after_headers_def change_headers_def
  change_header_def insert_tags_def links_and_emit_def add_backlinks_section_def set_text_def
  format_link_def get_backlinks_def reader_line_def lookup_def startswith_def endswith_def
  strip_def is_space_def lower_def lower_char_def read_tags_def autogen_match_def
  autogen_marker_def relpath_def path_parts_def path_parent_def str_split_def
  id_link_findall.simps id_findall.simps is_digit_def upt_rec Let_def

text \<open>
  C7, as amended. For a line with index 2 or more that is not in a code block, whose text
  starts with \<open>===\<close> and whose previous line is not blank, the loop body retracts the last
  emitted line and replaces the line's text by \<open># \<close> followed by the text of the previous
  line, then applies the remaining rules (tags, links, backlinks) to that heading; when
  none of them applies, the heading is the line emitted. A line that starts with \<open>---\<close>
  gives \<open>## \<close> in the same way.
\<close>

theorem setext_heading_rule:
  assumes "1 < i" and "i < length (lines st)" and "\<not> is_code_block (lines st ! i)"
    and "strip (md_text (lines st ! (i - 1))) \<noteq> []"
    and "underline = ''==='' \<and> prefix = ''# '' \<or> underline = ''---'' \<and> prefix = ''## ''"
    and "startswith (md_text (lines st ! i)) underline"
  shows "transform_line t note i st =
           after_headers t note i
             (set_text i (prefix @ md_text (lines st ! (i - 1)))
                (st\<lparr>out_lines := butlast (out_lines st)\<rparr>)) \<and>
         (CHR ''['' \<notin> set (md_text (lines st ! (i - 1))) \<and>
          \<not> substring_in ''tags: '' (lower (prefix @ md_text (lines st ! (i - 1)))) \<and>
          tag_transformer t {} = {} \<and>
          \<not> (length (current_section (lines st ! i)) = 2 \<and>
              lower (last (current_section (lines st ! i))) = ''backlinks'') \<and>
          \<not> is_last_line (lines st ! i) \<longrightarrow>
          transform_line t note i st =
            Inr (set_text i (prefix @ md_text (lines st ! (i - 1)))
                   (st\<lparr>out_lines := butlast (out_lines st) @
                                        [prefix @ md_text (lines st ! (i - 1))]\<rparr>)))"
proof (intro conjI impI)
  let ?txt = "prefix @ md_text (lines st ! (i - 1))"
  let ?st1 = "set_text i ?txt (st\<lparr>out_lines := butlast (out_lines st)\<rparr>)"
  have ch: "change_headers i st = ?st1"
    by (rule change_headers_fires [OF assms])
  show tl: "transform_line t note i st = after_headers t note i ?st1"
    using assms(3) ch by (simp add: transform_line_def Let_def)
  assume plain: "CHR ''['' \<notin> set (md_text (lines st ! (i - 1))) \<and>
          \<not> substring_in ''tags: '' (lower ?txt) \<and>
          tag_transformer t {} = {} \<and>
          \<not> (length (current_section (lines st ! i)) = 2 \<and>
              lower (last (current_section (lines st ! i))) = ''backlinks'') \<and>
          \<not> is_last_line (lines st ! i)"
  have len: "i < length (lines ?st1)" using assms(2) by (simp add: set_text_def)
  have tx: "md_text (lines ?st1 ! i) = ?txt" using assms(2) by (simp add: set_text_def)
  have nb: "CHR ''['' \<notin> set ?txt" using plain assms(5) by auto
  have sec: "\<not> (length (current_section (lines ?st1 ! i)) = 2 \<and>
             lower (last (current_section (lines ?st1 ! i))) = ''backlinks'')"
    using plain assms(2) by (simp add: set_text_def)
  have lst: "\<not> is_last_line (lines ?st1 ! i)"
    using plain assms(2) by (simp add: set_text_def)
  from after_headers_plain [OF len tx nb _ _ sec lst, of t "note"] plain
  have "after_headers t note i ?st1 = Inr (?st1\<lparr>out_lines := out_lines ?st1 @ [?txt]\<rparr>)"
    by blast
  with tl show "transform_line t note i st =
      Inr (set_text i ?txt (st\<lparr>out_lines := butlast (out_lines st) @ [?txt]\<rparr>))"
    by (simp add: set_text_def)
qed

theorem setext_heading_rule_witness:
  "transform_line ex_transformer ex_b 2 (setext_state ''===\<newline>'') =
     Inr \<lparr>out_lines = [''a\<newline>'', ''# Title\<newline>''],
          lines = (setext_lines ''===\<newline>'')[2 := reader_line [] ''# Title\<newline>'' False]\<rparr> \<and>
   transform_line ex_transformer ex_b 2 (setext_state ''---\<newline>'') =
     Inr \<lparr>out_lines = [''a\<newline>'', ''## Title\<newline>''],
          lines = (setext_lines ''---\<newline>'')[2 := reader_line [] ''## Title\<newline>'' False]\<rparr> \<and>
   transform ex_transformer ex_b (setext_lines ''===\<newline>'') = Inr ''a\<newline># Title\<newline>body\<newline>'' \<and>
   transform ex_transformer ex_b (setext_lines ''---\<newline>'') = Inr ''a\<newline>## Title\<newline>body\<newline>''"
proof -
  have hyps: "(1::nat) < 2" "2 < length (lines (setext_state u))"
    "\<not> is_code_block (lines (setext_state u) ! 2)"
    "strip (md_text (lines (setext_state u) ! (2 - 1))) \<noteq> []" for u
    by (simp_all add: setext_state_def setext_lines_def reader_line_def strip_def is_space_def)
  have plain: "CHR ''['' \<notin> set (md_text (lines (setext_state u) ! (2 - 1))) \<and>
      \<not> substring_in ''tags: '' (lower (p @ md_text (lines (setext_state u) ! (2 - 1)))) \<and>
      tag_transformer ex_transformer {} = {} \<and>
      \<not> (length (current_section (lines (setext_state u) ! 2)) = 2 \<and>
          lower (last (current_section (lines (setext_state u) ! 2))) = ''backlinks'') \<and>
      \<not> is_last_line (lines (setext_state u) ! 2)"
    if "p = ''# '' \<or> p = ''## ''" for u p
    using that
    by (auto simp: setext_state_def setext_lines_def reader_line_def ex_transformer_def
        lower_def lower_char_def startswith_def)
  have e1: "startswith (md_text (lines (setext_state ''===\<newline>'') ! 2)) ''===''"
    by (simp add: setext_state_def setext_lines_def reader_line_def startswith_def)
  have e2: "startswith (md_text (lines (setext_state ''---\<newline>'') ! 2)) ''---''"
    by (simp add: setext_state_def setext_lines_def reader_line_def startswith_def)
  from setext_heading_rule [OF hyps _ e1, of "''# ''" ex_transformer ex_b, THEN conjunct2] plain [of "''# ''"]
  have 1: "transform_line ex_transformer ex_b 2 (setext_state ''===\<newline>'') =
     Inr \<lparr>out_lines = [''a\<newline>'', ''# Title\<newline>''],
          lines = (setext_lines ''===\<newline>'')[2 := reader_line [] ''# Title\<newline>'' False]\<rparr>"
    by (simp add: setext_state_def setext_lines_def reader_line_def set_text_def)
  from setext_heading_rule [OF hyps _ e2, of "''## ''" ex_transformer ex_b, THEN conjunct2] plain [of "''## ''"]
  have 2: "transform_line ex_transformer ex_b 2 (setext_state ''---\<newline>'') =
     Inr \<lparr>out_lines = [''a\<newline>'', ''## Title\<newline>''],
          lines = (setext_lines ''---\<newline>'')[2 := reader_line [] ''## Title\<newline>'' False]\<rparr>"
    by (simp add: setext_state_def setext_lines_def reader_line_def set_text_def)
  have 3: "transform ex_transformer ex_b (setext_lines ''===\<newline>'') = Inr ''a\<newline># Title\<newline>body\<newline>''"
    by (simp add: setext_lines_def transform_defs ex_transformer_def ex_zk_def ex_b_def ex_n_def)
  have 4: "transform ex_transformer ex_b (setext_lines ''---\<newline>'') = Inr ''a\<newline>## Title\<newline>body\<newline>''"
    by (simp add: setext_lines_def transform_defs ex_transformer_def ex_zk_def ex_b_def ex_n_def)
  from 1 2 3 4 show ?thesis by blast
qed

text \<open>
  C7 as stated fails for an underline of two \<open>=\<close> characters, which is not rewritten, and
  for an underline on the second line of the file, which is not rewritten either.
\<close>

theorem setext_heading_counterexample:
  "transform ex_transformer ex_b
     [reader_line [] ''a\<newline>'' False, reader_line [] ''Title\<newline>'' False,
      reader_line [] ''==\<newline>'' True] = Inr ''a\<newline>Title\<newline>==\<newline>'' \<and>
   transform ex_transformer ex_b
     [reader_line [] ''Title\<newline>'' False, reader_line [] ''===\<newline>'' True] =
       Inr ''Title\<newline>===\<newline>''"
  by (simp add: transform_defs ex_transformer_def ex_zk_def ex_b_def ex_n_def)

lemma ex_zk_finalized: "finalize 1 (Zettelkasten_init [ex_n\<lparr>backlinks := {}\<rparr>, ex_b]) = Some ex_zk"
  by (simp add: zk_defs ex_zk_def ex_n_def ex_b_def)

text \<open>
  C3, at a failing input. The note \<open>20230101000001\<close> has one backlink and its file ends
  with a tag line that has no tags. The first pass drops that line and, with it, the rest of
  the iteration for the last line, so no backlinks section is written; the second pass,
  on the text the first one wrote and with the same collection, appends the section.
\<close>

theorem transform_twice_differs:
  "Zettel_init ''/zk/20230101000001.md'' ''# T\<newline>text\<newline>Tags: \<newline>'' =
     Inr \<lparr>path = path ex_n, zid = zid ex_n, links = links ex_n, title = title ex_n,
          tags = tags ex_n, backlinks_attr = None, depth_attr = None\<rparr> \<and>
   map md_text first_pass_lines = readlines ''# T\<newline>text\<newline>Tags: \<newline>'' \<and>
   transform ex_transformer ex_n first_pass_lines = Inr ''# T\<newline>text\<newline>'' \<and>
   Zettel_init ''/zk/20230101000001.md'' ''# T\<newline>text\<newline>'' =
     Inr \<lparr>path = path ex_n, zid = zid ex_n, links = links ex_n, title = title ex_n,
          tags = tags ex_n, backlinks_attr = None, depth_attr = None\<rparr> \<and>
   map md_text second_pass_lines = readlines ''# T\<newline>text\<newline>'' \<and>
   transform ex_transformer ex_n second_pass_lines =
     Inr (''# T\<newline>text\<newline>\<newline>## Backlinks\<newline>\<newline>'' @
          ''* [[20230101000002]] [B](20230101000002.md '' @ autogen_marker @ '')\<newline>'')"
proof (intro conjI)
  show "Zettel_init ''/zk/20230101000001.md'' ''# T\<newline>text\<newline>Tags: \<newline>'' =
     Inr \<lparr>path = path ex_n, zid = zid ex_n, links = links ex_n, title = title ex_n,
          tags = tags ex_n, backlinks_attr = None, depth_attr = None\<rparr>"
    by (simp add: Zettel_init_def analyze_file_def readlines_def analyze_line_def startswith_def
      str_split_def index_def strip_def is_space_def lower_def lower_char_def get_zid_def
      path_name_def id_findall.simps is_digit_def read_tags_def ex_n_def)
  show "Zettel_init ''/zk/20230101000001.md'' ''# T\<newline>text\<newline>'' =
     Inr \<lparr>path = path ex_n, zid = zid ex_n, links = links ex_n, title = title ex_n,
          tags = tags ex_n, backlinks_attr = None, depth_attr = None\<rparr>"
    by (simp add: Zettel_init_def analyze_file_def readlines_def analyze_line_def startswith_def
      str_split_def index_def strip_def is_space_def lower_def lower_char_def get_zid_def
      path_name_def id_findall.simps is_digit_def read_tags_def ex_n_def)
  show "map md_text first_pass_lines = readlines ''# T\<newline>text\<newline>Tags: \<newline>''"
    by (simp add: first_pass_lines_def reader_line_def readlines_def)
  show "map md_text second_pass_lines = readlines ''# T\<newline>text\<newline>''"
    by (simp add: second_pass_lines_def reader_line_def readlines_def)
  show "transform ex_transformer ex_n first_pass_lines = Inr ''# T\<newline>text\<newline>''"
    by (simp add: first_pass_lines_def transform_defs ex_transformer_def ex_zk_def ex_b_def ex_n_def)
  show "transform ex_transformer ex_n second_pass_lines =
     Inr (''# T\<newline>text\<newline>\<newline>## Backlinks\<newline>\<newline>'' @
          ''* [[20230101000002]] [B](20230101000002.md '' @ autogen_marker @ '')\<newline>'')"
    by (simp add: second_pass_lines_def transform_defs ex_transformer_def ex_zk_def ex_b_def ex_n_def)
qed

section \<open>Every collection that the constructor and \<open>add_zettels\<close> build is well formed\<close>

lemma wf_add_zettels:
  assumes "wf_zk k"
  shows "wf_zk (add_zettels zs k)"
proof -
  have step: "wf_zk (c\<lparr>zid2zettel := AList.update (zid z) z (zid2zettel c)\<rparr>)" if "wf_zk c" for c z
  proof -
    have "set (AList.update k v al) \<subseteq> insert (k, v) (set al)" for k v and al :: "(string \<times> zettel) list"
      by (induction al) auto
    then have "set (AList.update (zid z) z (zid2zettel c)) \<subseteq> insert (zid z, z) (set (zid2zettel c))" .
    then have "\<forall>x \<in> set (AList.update (zid z) z (zid2zettel c)). case x of (k, z) \<Rightarrow> zid z = k"
      using that by (fastforce simp: wf_zk_def list_all_iff)
    with that show ?thesis
      by (simp add: wf_zk_def distinct_update list_all_iff)
  qed
  have "wf_zk (fold (\<lambda>z c. c\<lparr>zid2zettel := AList.update (zid z) z (zid2zettel c)\<rparr>) zs c)"
    if "wf_zk c" for c
    using that by (induction zs arbitrary: c) (simp_all add: step)
  moreover have "wf_zk (k\<lparr>finalized := False\<rparr>)" using assms by (simp add: wf_zk_def)
  ultimately show ?thesis by (simp add: add_zettels_def)
qed

lemma wf_Zettelkasten_init: "wf_zk (Zettelkasten_init zs)"
proof -
  have "wf_zk \<lparr>zid2zettel = [], finalized = False, errors = []\<rparr>" by (simp add: wf_zk_def)
  from wf_add_zettels [OF this, of zs] show ?thesis
    by (simp add: Zettelkasten_init_def wf_zk_def)
qed

section \<open>A larger bound on the call depth gives the same result\<close>

lemma update_depths_more_fuel:
  "update_depths n zk m d = Some zk' \<Longrightarrow> update_depths (Suc n) zk m d = Some zk'"
  "update_depths_loop n zk ls d = Some zk' \<Longrightarrow> update_depths_loop (Suc n) zk ls d = Some zk'"
proof (induction n zk m d and n zk ls d arbitrary: zk' and zk'
    rule: update_depths_update_depths_loop.induct)
  case (1 zk mother mother_depth)
  then show ?case by simp
next
  case (2 n zk mother mother_depth)
  show ?case
  proof (cases "map_of (zid2zettel zk) mother")
    case None
    with "2.prems" show ?thesis by simp
  next
    case (Some m)
    show ?thesis
    proof (cases "depth m")
      case None
      with Some "2.prems" have
        "update_depths_loop n (set_depth mother mother_depth zk) (links m) mother_depth = Some zk'"
        by simp
      from "2.IH" [OF Some None this] Some None show ?thesis by simp
    next
      case (Some v)
      with \<open>map_of (zid2zettel zk) mother = Some m\<close> "2.prems" show ?thesis by simp
    qed
  qed
next
  case (3 n zk mother_depth)
  then show ?case by simp
next
  case (4 n zk daughter ds mother_depth)
  from "4.prems" obtain zk1 where
    u: "update_depths n zk daughter (mother_depth + 1) = Some zk1" and
    l: "update_depths_loop n (assign_daughter daughter (mother_depth + 1) zk1) ds mother_depth = Some zk'"
    by (auto split: option.splits)
  from "4.IH"(1) [OF u] "4.IH"(2) [OF u l] show ?case
    by (simp del: update_depths.simps)
qed

lemma finalize_more_fuel:
  assumes "finalize n zk = Some zk'" and "n \<le> n'"
  shows "finalize n' zk = Some zk'"
proof -
  have more: "update_depths n k m d = Some r \<Longrightarrow> update_depths (n + j) k m d = Some r" for j k m d r
    by (induction j) (simp_all add: update_depths_more_fuel(1) del: update_depths.simps)
  from assms(1) obtain r where
    r: "update_depths n (update_backlinks zk) root_zid 0 = Some r" "zk' = r\<lparr>finalized := True\<rparr>"
    by (auto simp: finalize_def split: option.splits)
  from more [OF r(1), of "n' - n"] assms(2) r(2) show ?thesis
    by (simp add: finalize_def)
qed

section \<open>The two collections agree on notes whose attributes exist\<close>

lemma map_of_obj_of:
  "map_of (map (\<lambda>(key, z). (key, obj_of z)) al) key' = map_option obj_of (map_of al key')"
  by (induction al) auto

lemma map_entry_obj_of:
  assumes "\<And>z. g' (obj_of z) = obj_of (g z)"
  shows "AList.map_entry key g' (map (\<lambda>(k, z). (k, obj_of z)) al) =
         map (\<lambda>(k, z). (k, obj_of z)) (AList.map_entry key g al)"
  by (induction al) (auto simp: assms)

lemma logger_error_kasten: "logger_error_obj msg (kasten_obj zk) = kasten_obj (logger_error msg zk)"
  by (simp add: logger_error_obj_def logger_error_def kasten_obj_def)

lemma set_depth_kasten: "set_depth_obj key d (kasten_obj zk) = kasten_obj (set_depth key d zk)"
proof -
  have "(obj_of z)\<lparr>depth_attr := Some (Some d)\<rparr> = obj_of (z\<lparr>depth := Some d\<rparr>)" for z
    by (simp add: obj_of_def)
  then show ?thesis
    by (simp add: set_depth_obj_def set_depth_def kasten_obj_def map_entry_obj_of)
qed

lemma assign_daughter_kasten:
  "assign_daughter_obj key d (kasten_obj zk) = kasten_obj (assign_daughter key d zk)"
proof (cases "map_of (zid2zettel zk) key")
  case None
  then have "map_of (obj_zid2zettel (kasten_obj zk)) key = None"
    by (simp add: kasten_obj_def map_of_obj_of)
  with None show ?thesis
    by (simp add: assign_daughter_obj_def assign_daughter_def logger_error_kasten)
next
  case (Some t)
  then have "map_of (obj_zid2zettel (kasten_obj zk)) key = Some (obj_of t)"
    by (simp add: kasten_obj_def map_of_obj_of)
  with Some show ?thesis
    by (simp add: assign_daughter_obj_def assign_daughter_def set_depth_kasten)
qed

lemma add_backlink_kasten:
  "add_backlink_obj src l (kasten_obj zk) = Inr (kasten_obj (add_backlink src l zk))"
proof (cases "map_of (zid2zettel zk) l")
  case None
  then have "map_of (obj_zid2zettel (kasten_obj zk)) l = None"
    by (simp add: kasten_obj_def map_of_obj_of)
  with None show ?thesis
    by (simp add: add_backlink_obj_def add_backlink_def logger_error_kasten)
next
  case (Some t)
  then have m: "map_of (obj_zid2zettel (kasten_obj zk)) l = Some (obj_of t)"
    by (simp add: kasten_obj_def map_of_obj_of)
  have "(obj_of z)\<lparr>backlinks_attr := map_option (insert src) (backlinks_attr (obj_of z))\<rparr> =
        obj_of (z\<lparr>backlinks := insert src (backlinks z)\<rparr>)" for z
    by (simp add: obj_of_def)
  then have "AList.map_entry l
       (\<lambda>t. t\<lparr>backlinks_attr := map_option (insert src) (backlinks_attr t)\<rparr>)
       (map (\<lambda>(k, z). (k, obj_of z)) (zid2zettel zk)) =
     map (\<lambda>(k, z). (k, obj_of z))
       (AList.map_entry l (\<lambda>t. t\<lparr>backlinks := insert src (backlinks t)\<rparr>) (zid2zettel zk))"
    by (intro map_entry_obj_of) simp
  with Some m show ?thesis
    by (simp add: add_backlink_obj_def add_backlink_def) (simp add: kasten_obj_def obj_of_def)
qed

lemma add_links_kasten:
  "add_links_obj src ls (kasten_obj zk) = Inr (kasten_obj (fold (add_backlink src) ls zk))"
  by (induction ls arbitrary: zk) (simp_all add: add_backlink_kasten)

lemma add_backlinks_kasten:
  "add_backlinks_obj (map obj_of zs) (kasten_obj zk) = Inr (kasten_obj (add_backlinks zs zk))"
proof (induction zs arbitrary: zk)
  case Nil
  then show ?case by (simp add: add_backlinks_def)
next
  case (Cons a zs)
  have "zid (obj_of a) = zid a" "links (obj_of a) = links a" by (simp_all add: obj_of_def)
  with Cons.IH show ?case
    by (simp add: add_links_kasten add_backlinks_def)
qed

lemma reset_backlinks_kasten:
  "reset_backlinks_obj (kasten_obj zk) = kasten_obj (reset_backlinks zk)"
  by (simp add: reset_backlinks_obj_def reset_backlinks_def kasten_obj_def obj_of_def
      case_prod_unfold comp_def)

lemma update_backlinks_kasten:
  "update_backlinks_obj (kasten_obj zk) = Inr (kasten_obj (update_backlinks zk))"
proof -
  have "map snd (obj_zid2zettel (kasten_obj k)) = map obj_of (zettels k)" for k
    by (simp add: kasten_obj_def zettels_def case_prod_unfold comp_def)
  then show ?thesis
    by (simp add: update_backlinks_obj_def update_backlinks_def Let_def reset_backlinks_kasten
        add_backlinks_kasten)
qed

lemma update_depths_kasten:
  "update_depths_obj n (kasten_obj zk) m d = map_option (\<lambda>k. Inr (kasten_obj k)) (update_depths n zk m d)"
  "update_depths_loop_obj n (kasten_obj zk) ls d =
     map_option (\<lambda>k. Inr (kasten_obj k)) (update_depths_loop n zk ls d)"
proof (induction n zk m d and n zk ls d rule: update_depths_update_depths_loop.induct)
  case (1 zk mother mother_depth)
  then show ?case by simp
next
  case (2 n zk mother mother_depth)
  show ?case
  proof (cases "map_of (zid2zettel zk) mother")
    case None
    then have "map_of (obj_zid2zettel (kasten_obj zk)) mother = None"
      by (simp add: kasten_obj_def map_of_obj_of)
    with None show ?thesis by (simp add: logger_error_kasten)
  next
    case (Some t)
    then have m: "map_of (obj_zid2zettel (kasten_obj zk)) mother = Some (obj_of t)"
      by (simp add: kasten_obj_def map_of_obj_of)
    have a: "depth_attr (obj_of t) = Some (depth t)" "links (obj_of t) = links t"
      by (simp_all add: obj_of_def)
    show ?thesis
    proof (cases "depth t")
      case None
      from "2.IH" [OF Some None] Some None m a show ?thesis
        by (simp add: set_depth_kasten)
    next
      case (Some v)
      with \<open>map_of (zid2zettel zk) mother = Some t\<close> m a show ?thesis by simp
    qed
  qed
next
  case (3 n zk mother_depth)
  then show ?case by simp
next
  case (4 n zk daughter ds mother_depth)
  show ?case
  proof (cases "update_depths n zk daughter (mother_depth + 1)")
    case None
    with "4.IH"(1) show ?thesis by simp
  next
    case (Some zk1)
    from "4.IH"(1) "4.IH"(2) [OF Some] Some show ?thesis
      by (simp add: assign_daughter_kasten)
  qed
qed

lemma finalize_kasten:
  "finalize_obj n (kasten_obj zk) = map_option (\<lambda>k. Inr (kasten_obj k)) (finalize n zk)"
proof (cases "update_depths n (update_backlinks zk) root_zid 0")
  case None
  then show ?thesis
    by (simp add: finalize_obj_def finalize_def update_backlinks_kasten update_depths_kasten(1))
next
  case (Some zk1)
  moreover have "(kasten_obj zk1)\<lparr>obj_finalized := True\<rparr> = kasten_obj (zk1\<lparr>finalized := True\<rparr>)"
    by (simp add: kasten_obj_def)
  ultimately show ?thesis
    by (simp add: finalize_obj_def finalize_def update_backlinks_kasten update_depths_kasten(1))
qed


section \<open>\<open>finalize\<close> on notes as the constructor builds them\<close>

lemmas zettel_init_defs = Zettel_init_def analyze_file_def readlines_def analyze_line_def
  startswith_def str_split_def index_def strip_def is_space_def lower_def lower_char_def
  get_zid_def path_name_def id_findall.simps is_digit_def read_tags_def

lemmas obj_defs = finalize_obj_def Zettelkasten_init_obj_def add_zettels_obj_def
  update_backlinks_obj_def reset_backlinks_obj_def add_backlink_obj_def root_zid_def
  set_depth_obj_def assign_daughter_obj_def logger_error_obj_def could_not_find_def

lemma root_built_eq:
  "Zettel_init ''/zk/00000000000000.md''
     ''# Root\<newline>see [[20230101000001]] and [[20230101000002]]\<newline>'' = Inr root_built"
  by (simp add: zettel_init_defs root_built_def)

lemma note_built_eq:
  "Zettel_init ''/zk/20230101000001.md'' ''# Note\<newline>back to [[00000000000000]]\<newline>'' =
     Inr note_built"
  by (simp add: zettel_init_defs note_built_def)

lemma cycle_root_built_eq:
  "Zettel_init ''/zk/00000000000000.md'' ''# Root\<newline>see [[20230101000001]]\<newline>'' =
     Inr cycle_root_built"
  by (simp add: zettel_init_defs cycle_root_built_def)

text \<open>
  C5, at a failing input. The two notes are built by the constructor from their files and
  form a cycle through the root. For every positive bound on the call depth \<open>finalize\<close>
  does not return a collection: it raises \<open>AttributeError\<close> when \<open>_update_depths\<close> reads
  the depth of the root, which no statement has assigned.
\<close>

theorem finalize_built_cycle_raises:
  "Zettel_init ''/zk/00000000000000.md'' ''# Root\<newline>see [[20230101000001]]\<newline>'' =
     Inr cycle_root_built \<and>
   Zettel_init ''/zk/20230101000001.md'' ''# Note\<newline>back to [[00000000000000]]\<newline>'' =
     Inr note_built \<and>
   finalize_obj (Suc n) (Zettelkasten_init_obj [cycle_root_built, note_built]) =
     Some (Inl AttributeError)"
  by (simp add: cycle_root_built_eq note_built_eq)
     (simp add: obj_defs cycle_root_built_def note_built_def)

text \<open>
  C9, at a failing input. The root, built by the constructor from its file, links to the
  registered note and to an id that is not registered. \<open>_update_backlinks\<close> completes, with
  the backlinks of the two notes and one diagnostic for the dangling link; \<open>finalize\<close>
  then does not complete: for every positive bound on the call depth it raises
  \<open>AttributeError\<close> when \<open>_update_depths\<close> reads the depth of the root.
\<close>

theorem finalize_built_dangling_raises:
  "Zettel_init ''/zk/00000000000000.md''
     ''# Root\<newline>see [[20230101000001]] and [[20230101000002]]\<newline>'' = Inr root_built \<and>
   Zettel_init ''/zk/20230101000001.md'' ''# Note\<newline>back to [[00000000000000]]\<newline>'' =
     Inr note_built \<and>
   update_backlinks_obj (Zettelkasten_init_obj [root_built, note_built]) =
     Inr \<lparr>obj_zid2zettel =
            [(''00000000000000'', root_built\<lparr>backlinks_attr := Some {''20230101000001''}\<rparr>),
             (''20230101000001'', note_built\<lparr>backlinks_attr := Some {''00000000000000''}\<rparr>)],
          obj_finalized = False,
          obj_errors = [''Could not find zettel with ZID 20230101000002'']\<rparr> \<and>
   finalize_obj (Suc n) (Zettelkasten_init_obj [root_built, note_built]) =
     Some (Inl AttributeError)"
  by (simp add: root_built_eq note_built_eq)
     (simp add: obj_defs root_built_def note_built_def)

end
